theory Spec2Isabelle
  imports Main "HOL-Library.AList"
begin

section \<open>Redfish event subscriptions across a fleet (redfish_utils.go)\<close>

text \<open>
  The embedding follows \<^verbatim>\<open>redfish-exporter/redfish_utils.go\<close> function by function.
  A Go \<^verbatim>\<open>error\<close> is its message (\<^verbatim>\<open>err.Error()\<close>), \<^verbatim>\<open>nil\<close> is \<open>None\<close>; a
  \<^verbatim>\<open>(value, error)\<close> result is a sum with the error on the left.

  The gofish client library and the controllers behind it are not part of the
  repository. They enter as a parameter: an oracle that answers every library call from
  the calls the calling goroutine has made so far. Every function threads the list of
  these calls (and of the lines it logs), so that what is sent, to which endpoint and in
  which order can be read off the result.

  Goroutines share nothing but the result map and the error channel. Each goroutine is
  given an oracle of its own, which stands for whatever answers it gets while the others
  run; what remains of the concurrency is the order in which the goroutines perform
  their one atomic action on the shared state, and that order is a parameter too.
\<close>

subsection \<open>Data\<close>

type_synonym error = string

text \<open>gofish declares these three as string types; \<^verbatim>\<open>interface{}\<close> is carried opaquely.\<close>

type_synonym EventType = string
type_synonym DeliveryRetryPolicy = string
type_synonym EventDestinationProtocol = string
type_synonym oem = string

record RedfishServer =
  IP :: string
  Username :: string
  Password :: string
  LoginType :: string
  SlurmNode :: string

text \<open>The Go zero value \<^verbatim>\<open>RedfishServer{}\<close>.\<close>

definition RedfishServer_zero :: RedfishServer where
  "RedfishServer_zero =
     \<lparr>IP = [], Username = [], Password = [], LoginType = [], SlurmNode = []\<rparr>"

text \<open>
  \<^verbatim>\<open>redfish.EventDestination\<close>, an active subscription as the controller lists it: the
  fields the code reads (\<^verbatim>\<open>ODataID\<close>, \<^verbatim>\<open>ID\<close>, \<^verbatim>\<open>Destination\<close>) and the filters,
  headers and context it does not read.
\<close>

record EventDestination =
  ODataID :: string
  ID :: string
  sub_Destination :: string
  sub_EventTypes :: "EventType list"
  sub_RegistryPrefixes :: "string list"
  sub_ResourceTypes :: "string list"
  sub_HTTPHeaders :: "string \<rightharpoonup> string"
  sub_Context :: string

record SubscriptionPayload =
  Destination :: string
  EventTypes :: "EventType list"
  RegistryPrefixes :: "string list"
  ResourceTypes :: "string list"
  DeliveryRetryPolicy :: DeliveryRetryPolicy
  HTTPHeaders :: "string \<rightharpoonup> string"
  Oem :: oem
  Protocol :: EventDestinationProtocol
  Context :: string

text \<open>
  What a goroutine does to the outside, in order. A call on a session names the
  endpoint the session was opened to. \<open>Connect\<close> carries the \<^verbatim>\<open>gofish.ClientConfig\<close>:
  endpoint, user name, password, \<^verbatim>\<open>Insecure\<close>.
\<close>

datatype event =
    Connect string string string bool
  | Logout string
  | EventService string
  | GetEventSubscriptions string
  | CreateEventSubscription string string "EventType list" "string \<rightharpoonup> string"
      EventDestinationProtocol string oem
  | CreateEventSubscriptionInstance string string "string list" "string list"
      "string \<rightharpoonup> string" EventDestinationProtocol string DeliveryRetryPolicy oem
  | DeleteEventSubscription string string
  | Log string

text \<open>
  The library and the controllers: each field answers the call that stands last in the
  given list, knowing the calls before it.
\<close>

record gofish =
  connect_res :: "event list \<Rightarrow> error option"
  eventService_res :: "event list \<Rightarrow> error option"
  getEventSubscriptions_res :: "event list \<Rightarrow> error + EventDestination list"
  createEventSubscription_res :: "event list \<Rightarrow> error + string"
  createEventSubscriptionInstance_res :: "event list \<Rightarrow> error + string"
  deleteEventSubscription_res :: "event list \<Rightarrow> error option"

subsection \<open>One server\<close>

text \<open>\<^verbatim>\<open>getRedfishClient\<close>: the client is known by the endpoint it is connected to.\<close>

definition getRedfishClient ::
  "gofish \<Rightarrow> RedfishServer \<Rightarrow> event list \<Rightarrow> (error + string) \<times> event list" where
  "getRedfishClient g server tr =
     (let tr1 = tr @ [Connect (IP server) (Username server) (Password server) True]
      in case connect_res g tr1 of
           Some err \<Rightarrow>
             (Inl err,
              tr1 @ [Log (''Error connecting to redfish server '' @ IP server @ '': '' @ err)])
         | None \<Rightarrow>
             (Inr (IP server),
              tr1 @ [Log (''Successfully connected to redfish server '' @ IP server)]))"

definition isV1_5 :: bool where
  "isV1_5 = False"

definition createV1_5Subscription ::
  "gofish \<Rightarrow> string \<Rightarrow> SubscriptionPayload \<Rightarrow> event list \<Rightarrow> (error + string) \<times> event list" where
  "createV1_5Subscription g eventService p tr =
     (let tr1 = tr @ [CreateEventSubscriptionInstance eventService
                        (Destination p) (RegistryPrefixes p) (ResourceTypes p) (HTTPHeaders p)
                        (Protocol p) (Context p) (DeliveryRetryPolicy p) (Oem p)]
      in case createEventSubscriptionInstance_res g tr1 of
           Inl err \<Rightarrow> (Inl (''failed to create v1.5 subscription: '' @ err), tr1)
         | Inr subscriptionURI \<Rightarrow> (Inr subscriptionURI, tr1))"

definition createLegacySubscription ::
  "gofish \<Rightarrow> string \<Rightarrow> SubscriptionPayload \<Rightarrow> event list \<Rightarrow> (error + string) \<times> event list" where
  "createLegacySubscription g eventService p tr =
     (let tr1 = tr @ [CreateEventSubscription eventService
                        (Destination p) (EventTypes p) (HTTPHeaders p)
                        (Protocol p) (Context p) (Oem p)]
      in case createEventSubscription_res g tr1 of
           Inl err \<Rightarrow> (Inl (''failed to create legacy subscription: '' @ err), tr1)
         | Inr subscriptionURI \<Rightarrow> (Inr subscriptionURI, tr1))"

text \<open>\<^verbatim>\<open>deleteSubscriptionFromServer\<close>; the deferred \<^verbatim>\<open>Logout\<close> runs on every return after the connect.\<close>

definition deleteSubscriptionFromServer ::
  "gofish \<Rightarrow> RedfishServer \<Rightarrow> string \<Rightarrow> event list \<Rightarrow> error option \<times> event list" where
  "deleteSubscriptionFromServer g server subscriptionURI tr =
     (case getRedfishClient g server tr of
        (Inl err, tr1) \<Rightarrow>
          (Some (''failed to connect to server '' @ IP server @ '': '' @ err), tr1)
      | (Inr c, tr1) \<Rightarrow>
          (let tr2 = tr1 @ [EventService c]
           in case eventService_res g tr2 of
                Some err \<Rightarrow>
                  (Some (''failed to get event service on server '' @ IP server @ '': '' @ err),
                   tr2 @ [Logout c])
              | None \<Rightarrow>
                  (let tr3 = tr2 @ [DeleteEventSubscription c subscriptionURI]
                   in case deleteEventSubscription_res g tr3 of
                        Some err \<Rightarrow>
                          (Some (''failed to delete event subscription on server '' @ IP server
                                 @ '': '' @ err),
                           tr3 @ [Logout c])
                      | None \<Rightarrow> (None, tr3 @ [Logout c]))))"

definition getServerSubscriptions ::
  "gofish \<Rightarrow> RedfishServer \<Rightarrow> event list \<Rightarrow> (error + EventDestination list) \<times> event list" where
  "getServerSubscriptions g server tr =
     (case getRedfishClient g server tr of
        (Inl err, tr1) \<Rightarrow>
          (Inl (''failed to connect to server '' @ IP server @ '': '' @ err), tr1)
      | (Inr c, tr1) \<Rightarrow>
          (let tr2 = tr1 @ [EventService c]
           in case eventService_res g tr2 of
                Some err \<Rightarrow>
                  (Inl (''failed to get event service on server '' @ IP server @ '': '' @ err),
                   tr2 @ [Logout c])
              | None \<Rightarrow>
                  (let tr3 = tr2 @ [GetEventSubscriptions c]
                   in case getEventSubscriptions_res g tr3 of
                        Inl err \<Rightarrow>
                          (Inl (''failed to get event subscriptions on server '' @ IP server
                                @ '': '' @ err),
                           tr3 @ [Logout c])
                      | Inr subscriptions \<Rightarrow> (Inr subscriptions, tr3 @ [Logout c]))))"

text \<open>The \<^verbatim>\<open>for\<close> loop of \<^verbatim>\<open>deleteConflictingSubscriptions\<close> over the listed subscriptions.\<close>

fun deleteConflicting_loop ::
  "gofish \<Rightarrow> RedfishServer \<Rightarrow> SubscriptionPayload \<Rightarrow> EventDestination list \<Rightarrow> event list
     \<Rightarrow> error option \<times> event list" where
  "deleteConflicting_loop g server p [] tr = (None, tr)"
| "deleteConflicting_loop g server p (subscription # rest) tr =
     (if sub_Destination subscription = Destination p
      then (case deleteSubscriptionFromServer g server (ODataID subscription) tr of
              (Some err, tr1) \<Rightarrow>
                (Some (''failed to delete event subscription '' @ ID subscription
                       @ '', on server '' @ IP server @ '': '' @ err),
                 tr1)
            | (None, tr1) \<Rightarrow>
                deleteConflicting_loop g server p rest
                  (tr1 @ [Log (''successfully deleted overlapping event subscription ''
                               @ ID subscription @ '' from server '' @ IP server)]))
      else deleteConflicting_loop g server p rest tr)"

definition deleteConflictingSubscriptions ::
  "gofish \<Rightarrow> RedfishServer \<Rightarrow> SubscriptionPayload \<Rightarrow> event list \<Rightarrow> error option \<times> event list" where
  "deleteConflictingSubscriptions g server p tr =
     (case getServerSubscriptions g server tr of
        (Inl err, tr1) \<Rightarrow> (Some err, tr1)
      | (Inr subscriptions, tr1) \<Rightarrow> deleteConflicting_loop g server p subscriptions tr1)"

text \<open>
  \<^verbatim>\<open>createSubscription\<close>. Line 83 calls \<^verbatim>\<open>deleteConflictingSubscriptions\<close> as a
  statement: the error it returns is dropped, only its calls remain.
\<close>

definition createSubscription ::
  "gofish \<Rightarrow> RedfishServer \<Rightarrow> SubscriptionPayload \<Rightarrow> event list \<Rightarrow> (error + string) \<times> event list" where
  "createSubscription g server p tr =
     (case getRedfishClient g server tr of
        (Inl err, tr1) \<Rightarrow>
          (Inl (''failed to connect to server '' @ IP server @ '': '' @ err), tr1)
      | (Inr c, tr1) \<Rightarrow>
          (let tr2 = tr1 @ [EventService c]
           in case eventService_res g tr2 of
                Some err \<Rightarrow>
                  (Inl (''failed to get event service on server '' @ IP server @ '': '' @ err),
                   tr2 @ [Logout c])
              | None \<Rightarrow>
                  (let tr3 = snd (deleteConflictingSubscriptions g server p tr2);
                       (res, tr4) = (if isV1_5 then createV1_5Subscription g c p tr3
                                     else createLegacySubscription g c p tr3)
                   in (res, tr4 @ [Logout c]))))"

subsection \<open>The fleet\<close>

text \<open>\<^verbatim>\<open>getServerInfo\<close>: the first descriptor with the address, else the zero value.\<close>

fun getServerInfo :: "RedfishServer list \<Rightarrow> string \<Rightarrow> RedfishServer" where
  "getServerInfo [] serverIP = RedfishServer_zero"
| "getServerInfo (redfishServer # rest) serverIP =
     (if IP redfishServer = serverIP then redfishServer else getServerInfo rest serverIP)"

text \<open>
  One goroutine of \<^verbatim>\<open>DeleteSubscriptionsFromAllServers\<close>: the entry it was started for,
  the descriptor it looked up, the error of the delete and what it called and logged.
\<close>

record delete_run =
  run_serverIP :: string
  run_subscriptionURI :: string
  run_server :: RedfishServer
  run_err :: "error option"
  run_trace :: "event list"

definition delete_worker ::
  "gofish \<Rightarrow> RedfishServer list \<Rightarrow> string \<Rightarrow> string \<Rightarrow> delete_run" where
  "delete_worker g redfishServers serverIP subscriptionURI =
     (let server = getServerInfo redfishServers serverIP;
          (res, tr) = deleteSubscriptionFromServer g server subscriptionURI []
      in \<lparr>run_serverIP = serverIP, run_subscriptionURI = subscriptionURI, run_server = server,
          run_err = res,
          run_trace =
            (case res of
               Some err \<Rightarrow>
                 tr @ [Log (''Failed to delete event subscription on server '' @ IP server
                            @ '': '' @ err)]
             | None \<Rightarrow>
                 tr @ [Log (''Successfully deleted event subscription from server '' @ IP server
                            @ '': '' @ subscriptionURI)])\<rparr>)"

text \<open>
  \<^verbatim>\<open>DeleteSubscriptionsFromAllServers\<close>. The Go map is an association list with distinct
  keys; one goroutine per entry, each with the oracle of its own key, all joined before
  the return. There is no error to return: the result is what was logged and done.
\<close>

definition DeleteSubscriptionsFromAllServers ::
  "(string \<Rightarrow> gofish) \<Rightarrow> RedfishServer list \<Rightarrow> (string \<times> string) list
     \<Rightarrow> event list \<times> delete_run list" where
  "DeleteSubscriptionsFromAllServers renvs redfishServers subscriptionMap =
     ([Log ''Unsubscribing from servers...''],
      map (\<lambda>(serverIP, subscriptionURI).
             delete_worker (renvs serverIP) redfishServers serverIP subscriptionURI)
          subscriptionMap)"

text \<open>
  A buffered channel of errors: a send on a full buffer blocks, and nobody receives
  before all workers are done, so a blocked send never returns (\<open>None\<close>).
\<close>

record chan =
  capacity :: nat
  buffer :: "error list"

definition make_chan :: "nat \<Rightarrow> chan" where
  "make_chan n = \<lparr>capacity = n, buffer = []\<rparr>"

definition send :: "chan \<Rightarrow> error \<Rightarrow> chan option" where
  "send ch e =
     (if length (buffer ch) < capacity ch then Some (ch\<lparr>buffer := buffer ch @ [e]\<rparr>) else None)"

text \<open>
  The goroutine started for one server in \<^verbatim>\<open>CreateSubscriptionsForAllServers\<close>, up to
  its one shared action: the error it will send, or the identifier it will store.
\<close>

definition create_worker ::
  "gofish \<Rightarrow> RedfishServer \<Rightarrow> SubscriptionPayload \<Rightarrow> (error + string) \<times> event list" where
  "create_worker g server p =
     (case createSubscription g server p [] of
        (Inl err, tr) \<Rightarrow>
          (Inl (''subscription failed on server '' @ IP server @ '': '' @ err), tr)
      | (Inr subscriptionURI, tr) \<Rightarrow>
          (Inr subscriptionURI,
           tr @ [Log (''Successfully created subscription on redfish server '' @ IP server
                      @ '': '' @ subscriptionURI)]))"

record fleet_state =
  subscriptionMap :: "(string \<times> string) list"
  errChan :: chan

text \<open>
  The shared action of worker \<open>i\<close>: a send on the channel, or the store under the
  mutex. Both are atomic, so the workers' shared actions happen in some order.
\<close>

definition worker_done ::
  "RedfishServer list \<Rightarrow> (error + string) list \<Rightarrow> nat \<Rightarrow> fleet_state \<Rightarrow> fleet_state option" where
  "worker_done redfishServers outs i st =
     (case outs ! i of
        Inl e \<Rightarrow>
          (case send (errChan st) e of
             None \<Rightarrow> None
           | Some ch \<Rightarrow> Some (st\<lparr>errChan := ch\<rparr>))
      | Inr subscriptionURI \<Rightarrow>
          Some (st\<lparr>subscriptionMap :=
                     AList.update (IP (redfishServers ! i)) subscriptionURI (subscriptionMap st)\<rparr>))"

text \<open>The workers' shared actions in the order \<open>sched\<close> in which they happen.\<close>

fun run_workers ::
  "RedfishServer list \<Rightarrow> (error + string) list \<Rightarrow> nat list \<Rightarrow> fleet_state \<Rightarrow> fleet_state option" where
  "run_workers redfishServers outs [] st = Some st"
| "run_workers redfishServers outs (i # sched) st =
     (case worker_done redfishServers outs i st of
        None \<Rightarrow> None
      | Some st' \<Rightarrow> run_workers redfishServers outs sched st')"

text \<open>\<^verbatim>\<open>%s\<close> of a \<^verbatim>\<open>[]string\<close>: the elements between brackets, separated by one space.\<close>

fun join_space :: "string list \<Rightarrow> string" where
  "join_space [] = []"
| "join_space [x] = x"
| "join_space (x # y # ys) = x @ '' '' @ join_space (y # ys)"

definition fmt_strings :: "string list \<Rightarrow> string" where
  "fmt_strings xs = ''['' @ join_space xs @ '']''"

record fleet_result =
  ret_map :: "(string \<times> string) list option"
  ret_err :: "error option"
  create_traces :: "event list list"
  rollback :: "(event list \<times> delete_run list) option"

text \<open>
  \<^verbatim>\<open>CreateSubscriptionsForAllServers\<close>. \<open>envs i\<close> answers the goroutine of the \<open>i\<close>-th
  server, \<open>renvs a\<close> the rollback goroutine of address \<open>a\<close>, \<open>sched\<close> is the order of the
  workers' shared actions. The result is \<open>None\<close> when a worker blocks for ever; else
  the two returned values, with the calls of every create worker and the rollback if
  there was one.
\<close>

definition create_runs ::
  "(nat \<Rightarrow> gofish) \<Rightarrow> RedfishServer list \<Rightarrow> SubscriptionPayload
     \<Rightarrow> ((error + string) \<times> event list) list" where
  "create_runs envs redfishServers subscriptionPayload =
     map (\<lambda>i. create_worker (envs i) (redfishServers ! i) subscriptionPayload)
         [0..<length redfishServers]"

definition create_outs ::
  "(nat \<Rightarrow> gofish) \<Rightarrow> RedfishServer list \<Rightarrow> SubscriptionPayload \<Rightarrow> (error + string) list" where
  "create_outs envs redfishServers subscriptionPayload =
     map fst (create_runs envs redfishServers subscriptionPayload)"

definition fleet_init :: "RedfishServer list \<Rightarrow> fleet_state" where
  "fleet_init redfishServers =
     \<lparr>subscriptionMap = [], errChan = make_chan (length redfishServers)\<rparr>"

definition CreateSubscriptionsForAllServers ::
  "nat list \<Rightarrow> (nat \<Rightarrow> gofish) \<Rightarrow> (string \<Rightarrow> gofish) \<Rightarrow> RedfishServer list \<Rightarrow> SubscriptionPayload
     \<Rightarrow> fleet_result option" where
  "CreateSubscriptionsForAllServers sched envs renvs redfishServers subscriptionPayload =
     (let runs = create_runs envs redfishServers subscriptionPayload
      in case run_workers redfishServers (create_outs envs redfishServers subscriptionPayload)
                sched (fleet_init redfishServers) of
           None \<Rightarrow> None
         | Some st \<Rightarrow>
             (let allErrors = buffer (errChan st)
              in if length allErrors > 0
                 then Some \<lparr>ret_map = None,
                            ret_err = Some (''subscription process encountered errors: ''
                                            @ fmt_strings allErrors),
                            create_traces = map snd runs,
                            rollback = Some (DeleteSubscriptionsFromAllServers renvs redfishServers
                                               (subscriptionMap st))\<rparr>
                 else Some \<lparr>ret_map = Some (subscriptionMap st), ret_err = None,
                            create_traces = map snd runs, rollback = None\<rparr>))"

subsection \<open>What the properties observe\<close>

text \<open>
  The outcome of the create attempt on the \<open>i\<close>-th server, run by its own goroutine from
  an empty history, and the message its goroutine sends when the attempt fails.
\<close>

definition create_result ::
  "(nat \<Rightarrow> gofish) \<Rightarrow> RedfishServer list \<Rightarrow> SubscriptionPayload \<Rightarrow> nat \<Rightarrow> error + string" where
  "create_result envs servers p i = fst (createSubscription (envs i) (servers ! i) p [])"

definition failure_message ::
  "(nat \<Rightarrow> gofish) \<Rightarrow> RedfishServer list \<Rightarrow> SubscriptionPayload \<Rightarrow> nat \<Rightarrow> error" where
  "failure_message envs servers p i =
     ''subscription failed on server '' @ IP (servers ! i) @ '': ''
     @ projl (create_result envs servers p i)"

text \<open>
  What the workers leave behind when their shared actions happen in the order \<open>sched\<close>:
  the errors in the channel, in order of arrival, and the map, each store replacing the
  entry of its address.
\<close>

fun sent_errors :: "(error + string) list \<Rightarrow> nat list \<Rightarrow> error list" where
  "sent_errors outs [] = []"
| "sent_errors outs (i # sched) =
     (case outs ! i of Inl e \<Rightarrow> e # sent_errors outs sched | Inr u \<Rightarrow> sent_errors outs sched)"

fun stored_map ::
  "RedfishServer list \<Rightarrow> (error + string) list \<Rightarrow> nat list \<Rightarrow> (string \<times> string) list
     \<Rightarrow> (string \<times> string) list" where
  "stored_map servers outs [] m = m"
| "stored_map servers outs (i # sched) m =
     (case outs ! i of
        Inl e \<Rightarrow> stored_map servers outs sched m
      | Inr u \<Rightarrow> stored_map servers outs sched (AList.update (IP (servers ! i)) u m))"

text \<open>
  Readings of a list of calls: the delete requests sent (endpoint and identifier), the
  create requests of either shape, and the library calls without the log lines.
\<close>

fun delete_calls :: "event list \<Rightarrow> (string \<times> string) list" where
  "delete_calls [] = []"
| "delete_calls (DeleteEventSubscription c u # tr) = (c, u) # delete_calls tr"
| "delete_calls (e # tr) = delete_calls tr"

fun is_create :: "event \<Rightarrow> bool" where
  "is_create (CreateEventSubscription c d ts h pr cx o') = True"
| "is_create (CreateEventSubscriptionInstance c d rp rt h pr cx rpol o') = True"
| "is_create e = False"

definition create_calls :: "event list \<Rightarrow> event list" where
  "create_calls tr = filter is_create tr"

fun is_log :: "event \<Rightarrow> bool" where
  "is_log (Log s) = True"
| "is_log e = False"

definition library_calls :: "event list \<Rightarrow> event list" where
  "library_calls tr = filter (\<lambda>e. \<not> is_log e) tr"

text \<open>
  \<open>createSubscription\<close> holds a live session: its connect and its event-service lookup
  succeeded.
\<close>

definition session_opened :: "gofish \<Rightarrow> RedfishServer \<Rightarrow> event list \<Rightarrow> bool" where
  "session_opened g server tr =
     (case getRedfishClient g server tr of
        (Inl err, tr1) \<Rightarrow> False
      | (Inr c, tr1) \<Rightarrow> eventService_res g (tr1 @ [EventService c]) = None)"

text \<open>The listed subscriptions whose destination is the payload's, and the legacy request.\<close>

definition matching ::
  "SubscriptionPayload \<Rightarrow> EventDestination list \<Rightarrow> EventDestination list" where
  "matching p subs = filter (\<lambda>s. sub_Destination s = Destination p) subs"

definition legacy_call :: "string \<Rightarrow> SubscriptionPayload \<Rightarrow> event" where
  "legacy_call c p =
     CreateEventSubscription c (Destination p) (EventTypes p) (HTTPHeaders p)
       (Protocol p) (Context p) (Oem p)"

subsection \<open>Concrete servers and controllers\<close>

text \<open>
  Inputs on which the properties are run: descriptors, the payload of the end-to-end
  scenario, and controllers that accept everything, refuse the create, refuse the
  connection, fail the listing, or fail the delete of the first of two duplicates.
\<close>

definition node :: "string \<Rightarrow> RedfishServer" where
  "node a = \<lparr>IP = a, Username = ''root'', Password = ''pw'', LoginType = ''basic'', SlurmNode = ''n''\<rparr>"

definition hook_payload :: SubscriptionPayload where
  "hook_payload =
     \<lparr>Destination = ''http://hook/x'', EventTypes = [''Alert''], RegistryPrefixes = [],
      ResourceTypes = [], DeliveryRetryPolicy = ''RetryForever'', HTTPHeaders = Map.empty,
      Oem = [], Protocol = ''Redfish'', Context = ''ctx''\<rparr>"

definition bmc_ok :: "string \<Rightarrow> gofish" where
  "bmc_ok uri =
     \<lparr>connect_res = (\<lambda>tr. None), eventService_res = (\<lambda>tr. None),
      getEventSubscriptions_res = (\<lambda>tr. Inr []),
      createEventSubscription_res = (\<lambda>tr. Inr uri),
      createEventSubscriptionInstance_res = (\<lambda>tr. Inr uri),
      deleteEventSubscription_res = (\<lambda>tr. None)\<rparr>"

definition bmc_create_fails :: gofish where
  "bmc_create_fails = (bmc_ok [])\<lparr>createEventSubscription_res := (\<lambda>tr. Inl ''503'')\<rparr>"

definition bmc_unreachable :: gofish where
  "bmc_unreachable = (bmc_ok [])\<lparr>connect_res := (\<lambda>tr. Some ''refused'')\<rparr>"

definition dup :: "string \<Rightarrow> EventDestination" where
  "dup n =
     \<lparr>ODataID = ''/s/'' @ n, ID = n, sub_Destination = ''http://hook/x'',
      sub_EventTypes = [''StatusChange''], sub_RegistryPrefixes = [], sub_ResourceTypes = [],
      sub_HTTPHeaders = Map.empty, sub_Context = ''old''\<rparr>"

definition bmc_first_delete_fails :: gofish where
  "bmc_first_delete_fails =
     (bmc_ok ''/s/9'')
       \<lparr>getEventSubscriptions_res := (\<lambda>tr. Inr [dup ''1'', dup ''2'']),
        deleteEventSubscription_res :=
          (\<lambda>tr. if last tr = DeleteEventSubscription ''a'' ''/s/1'' then Some ''500'' else None)\<rparr>"

definition bmc_list_fails :: gofish where
  "bmc_list_fails = (bmc_ok ''/s/9'')\<lparr>getEventSubscriptions_res := (\<lambda>tr. Inl ''500'')\<rparr>"

definition two_uri :: "nat \<Rightarrow> string" where
  "two_uri i = (if i = 0 then ''/s/1'' else ''/s/2'')"

definition two_ok :: "nat \<Rightarrow> gofish" where
  "two_ok i = bmc_ok (two_uri i)"

definition second_fails :: "nat \<Rightarrow> gofish" where
  "second_fails i = (if i = 1 then bmc_create_fails else bmc_ok ''/s/1'')"

definition none_ok :: "nat \<Rightarrow> gofish" where
  "none_ok i = bmc_create_fails"

definition all_ok :: "string \<Rightarrow> gofish" where
  "all_ok a = bmc_ok []"

definition all_unreachable :: "string \<Rightarrow> gofish" where
  "all_unreachable a = bmc_unreachable"

definition session_trace :: "event list" where
  "session_trace =
     [Connect ''a'' ''root'' ''pw'' True, Log ''Successfully connected to redfish server a'',
      EventService ''a'']"

text \<open>
  A listing with a subscription for another destination among three for the payload's,
  on a controller that fails the delete of the second of these; and a library that, as
  gofish does, refuses an endpoint that is not an http address before it connects.
\<close>

definition other_sub :: EventDestination where
  "other_sub =
     \<lparr>ODataID = ''/s/0'', ID = ''0'', sub_Destination = ''http://else/y'',
      sub_EventTypes = [''Alert''], sub_RegistryPrefixes = [], sub_ResourceTypes = [],
      sub_HTTPHeaders = Map.empty, sub_Context = ''ctx''\<rparr>"

definition bmc_second_delete_fails :: gofish where
  "bmc_second_delete_fails =
     (bmc_ok ''/s/9'')
       \<lparr>getEventSubscriptions_res := (\<lambda>tr. Inr [dup ''1'', other_sub, dup ''2'', dup ''3'']),
        deleteEventSubscription_res :=
          (\<lambda>tr. if last tr = DeleteEventSubscription ''a'' ''/s/2'' then Some ''500'' else None)\<rparr>"



section \<open>Properties\<close>

subsection \<open>Auxiliary facts\<close>

lemma run_workers_Some:
  "length (buffer (errChan st)) + length sched \<le> capacity (errChan st) \<Longrightarrow>
   run_workers servers outs sched st =
     Some \<lparr>subscriptionMap = stored_map servers outs sched (subscriptionMap st),
           errChan = \<lparr>capacity = capacity (errChan st),
                      buffer = buffer (errChan st) @ sent_errors outs sched\<rparr>\<rparr>"
proof (induction sched arbitrary: st)
  case Nil
  then show ?case by simp
next
  case (Cons i sched)
  show ?case
  proof (cases "outs ! i")
    case (Inl e)
    let ?st' = "st\<lparr>errChan := (errChan st)\<lparr>buffer := buffer (errChan st) @ [e]\<rparr>\<rparr>"
    from Cons.prems have lt: "length (buffer (errChan st)) < capacity (errChan st)" by simp
    then have wd: "worker_done servers outs i st = Some ?st'"
      by (simp add: worker_done_def send_def Inl)
    from Cons.prems have "length (buffer (errChan ?st')) + length sched \<le> capacity (errChan ?st')"
      by simp
    from Cons.IH[OF this] wd Inl show ?thesis by simp
  next
    case (Inr u)
    let ?st' = "st\<lparr>subscriptionMap := AList.update (IP (servers ! i)) u (subscriptionMap st)\<rparr>"
    have wd: "worker_done servers outs i st = Some ?st'"
      by (simp add: worker_done_def Inr)
    from Cons.prems have "length (buffer (errChan ?st')) + length sched \<le> capacity (errChan ?st')"
      by simp
    from Cons.IH[OF this] wd Inr show ?thesis by simp
  qed
qed

lemma sched_length:
  assumes "distinct sched" "set sched \<subseteq> {..<n}"
  shows "length sched \<le> n"
proof -
  have "length sched = card (set sched)" using assms(1) by (simp add: distinct_card)
  also have "\<dots> \<le> card {..<n}" using assms(2) by (intro card_mono) auto
  finally show ?thesis by simp
qed

lemma run_workers_fleet:
  assumes "distinct sched" "set sched \<subseteq> {..<length servers}"
  shows "run_workers servers outs sched (fleet_init servers) =
     Some \<lparr>subscriptionMap = stored_map servers outs sched [],
           errChan = \<lparr>capacity = length servers, buffer = sent_errors outs sched\<rparr>\<rparr>"
  using run_workers_Some[of "fleet_init servers" sched servers outs] sched_length[OF assms]
  by (simp add: fleet_init_def make_chan_def)

lemma create_outs_nth:
  "i < length servers \<Longrightarrow>
   create_outs envs servers p ! i =
     (case create_result envs servers p i of
        Inl err \<Rightarrow> Inl (''subscription failed on server '' @ IP (servers ! i) @ '': '' @ err)
      | Inr u \<Rightarrow> Inr u)"
  by (simp add: create_outs_def create_runs_def create_result_def create_worker_def
      split: prod.splits sum.splits)

lemma sent_errors_filter:
  "sent_errors outs sched = map (\<lambda>i. projl (outs ! i)) (filter (\<lambda>i. isl (outs ! i)) sched)"
  by (induction sched) (auto split: sum.splits)

lemma stored_map_distinct:
  "distinct (map fst m) \<Longrightarrow> distinct (map fst (stored_map servers outs sched m))"
  by (induction sched arbitrary: m) (auto split: sum.splits simp: distinct_update)

lemma stored_map_keys:
  "fst ` set (stored_map servers outs sched m) =
     fst ` set m \<union> {IP (servers ! i) | i. i \<in> set sched \<and> \<not> isl (outs ! i)}"
proof (induction sched arbitrary: m)
  case Nil
  then show ?case by simp
next
  case (Cons i sched)
  show ?case
  proof (cases "outs ! i")
    case (Inl e)
    then show ?thesis using Cons.IH[of m] by auto
  next
    case (Inr u)
    then show ?thesis
      using Cons.IH[of "AList.update (IP (servers ! i)) u m"]
      by (auto simp: dom_update)
  qed
qed

lemma stored_map_lookup:
  "map_of (stored_map servers outs sched m) a =
     (let js = filter (\<lambda>i. \<not> isl (outs ! i) \<and> IP (servers ! i) = a) sched
      in if js = [] then map_of m a else Some (projr (outs ! last js)))"
proof (induction sched arbitrary: m)
  case Nil
  then show ?case by simp
next
  case (Cons i sched)
  show ?case
  proof (cases "outs ! i")
    case (Inl e)
    then show ?thesis using Cons.IH[of m] by simp
  next
    case (Inr u)
    then show ?thesis
      using Cons.IH[of "AList.update (IP (servers ! i)) u m"]
      by (simp add: update_conv' Let_def)
  qed
qed

lemma CreateAll_char:
  assumes "distinct sched" "set sched \<subseteq> {..<length servers}"
  shows "CreateSubscriptionsForAllServers sched envs renvs servers p =
     (let outs = create_outs envs servers p;
          m = stored_map servers outs sched [];
          allErrors = sent_errors outs sched
      in if allErrors \<noteq> []
         then Some \<lparr>ret_map = None,
                    ret_err = Some (''subscription process encountered errors: ''
                                    @ fmt_strings allErrors),
                    create_traces = map snd (create_runs envs servers p),
                    rollback = Some (DeleteSubscriptionsFromAllServers renvs servers m)\<rparr>
         else Some \<lparr>ret_map = Some m, ret_err = None,
                    create_traces = map snd (create_runs envs servers p), rollback = None\<rparr>)"
  unfolding CreateSubscriptionsForAllServers_def Let_def
  by (simp add: run_workers_fleet[OF assms])

lemma sent_errors_empty_iff:
  "sent_errors outs sched = [] \<longleftrightarrow> (\<forall>i\<in>set sched. \<not> isl (outs ! i))"
  by (simp add: sent_errors_filter filter_empty_conv)

lemma create_outs_isl:
  "i < length servers \<Longrightarrow>
   isl (create_outs envs servers p ! i) = isl (create_result envs servers p i)"
  by (simp add: create_outs_nth split: sum.splits)

lemma create_outs_Inr:
  "i < length servers \<Longrightarrow> create_result envs servers p i = Inr u \<Longrightarrow>
   create_outs envs servers p ! i = Inr u"
  by (simp add: create_outs_nth)

lemma create_outs_Inr_iff:
  "i < length servers \<Longrightarrow>
   create_outs envs servers p ! i = Inr u \<longleftrightarrow> create_result envs servers p i = Inr u"
  by (simp add: create_outs_nth split: sum.splits)

lemma alist_length_card:
  "distinct (map fst m) \<Longrightarrow> length m = card (fst ` set m)"
  by (metis distinct_card length_map set_map)

lemma distinct_map_nth_inj:
  assumes "distinct (map f xs)" "i < length xs" "j < length xs" "f (xs ! i) = f (xs ! j)"
  shows "i = j"
proof -
  have "map f xs ! i = map f xs ! j" using assms by simp
  then show ?thesis using assms(1-3) nth_eq_iff_index_eq[of "map f xs" i j] by simp
qed

lemma sent_errors_create:
  assumes "set sched \<subseteq> {..<length servers}"
  shows "sent_errors (create_outs envs servers p) sched =
     map (failure_message envs servers p)
         (filter (\<lambda>i. isl (create_result envs servers p i)) sched)"
  using assms
proof (induction sched)
  case Nil
  then show ?case by simp
next
  case (Cons i sched)
  then have i: "i < length servers" by simp
  show ?case
    using Cons i
    by (cases "create_result envs servers p i")
       (simp_all add: create_outs_nth failure_message_def)
qed

lemma stored_map_create_lookup:
  assumes sched: "set sched = {..<length servers}"
    and ok: "\<forall>i<length servers. create_result envs servers p i = Inr (uri i)"
    and i: "i < length servers"
  shows "map_of (stored_map servers (create_outs envs servers p) sched []) (IP (servers ! i)) =
     Some (uri (last (filter (\<lambda>j. IP (servers ! j) = IP (servers ! i)) sched)))"
proof -
  let ?outs = "create_outs envs servers p"
  have outs: "\<And>j. j < length servers \<Longrightarrow> ?outs ! j = Inr (uri j)"
    using ok by (simp add: create_outs_Inr)
  have eq: "filter (\<lambda>j. \<not> isl (?outs ! j) \<and> IP (servers ! j) = IP (servers ! i)) sched =
        filter (\<lambda>j. IP (servers ! j) = IP (servers ! i)) sched" (is "?js' = ?js")
    using sched outs by (intro filter_cong) auto
  have "i \<in> set ?js" using i sched by simp
  then have ne: "?js \<noteq> []" by (metis empty_iff empty_set)
  then have "last ?js \<in> set ?js" by (rule last_in_set)
  then have "last ?js < length servers" using sched by auto
  then have "?outs ! last ?js = Inr (uri (last ?js))" by (rule outs)
  then show ?thesis using ne by (simp add: stored_map_lookup Let_def eq)
qed

lemma all_created_result:
  assumes sched: "distinct sched" "set sched = {..<length servers}"
    and ok: "\<forall>i<length servers. create_result envs servers p i = Inr (uri i)"
  shows "CreateSubscriptionsForAllServers sched envs renvs servers p =
     Some \<lparr>ret_map = Some (stored_map servers (create_outs envs servers p) sched []),
           ret_err = None,
           create_traces = map snd (create_runs envs servers p), rollback = None\<rparr>"
    and "fst ` set (stored_map servers (create_outs envs servers p) sched []) = IP ` set servers"
proof -
  let ?outs = "create_outs envs servers p"
  have outs: "\<And>i. i < length servers \<Longrightarrow> ?outs ! i = Inr (uri i)"
    using ok by (simp add: create_outs_Inr)
  have noerr: "sent_errors ?outs sched = []"
    using sched(2) outs by (auto simp: sent_errors_empty_iff)
  have sub: "set sched \<subseteq> {..<length servers}" using sched(2) by simp
  show "CreateSubscriptionsForAllServers sched envs renvs servers p =
     Some \<lparr>ret_map = Some (stored_map servers ?outs sched []), ret_err = None,
           create_traces = map snd (create_runs envs servers p), rollback = None\<rparr>"
    using CreateAll_char[OF sched(1) sub, of envs renvs p] noerr by (simp add: Let_def)
  have "{IP (servers ! i) | i. i \<in> set sched \<and> \<not> isl (?outs ! i)} = IP ` set servers"
  proof
    show "{IP (servers ! i) | i. i \<in> set sched \<and> \<not> isl (?outs ! i)} \<subseteq> IP ` set servers"
      using sched(2) by auto
    show "IP ` set servers \<subseteq> {IP (servers ! i) | i. i \<in> set sched \<and> \<not> isl (?outs ! i)}"
    proof
      fix a assume "a \<in> IP ` set servers"
      then obtain i where i: "i < length servers" "a = IP (servers ! i)"
        by (auto simp: in_set_conv_nth)
      then have "i \<in> set sched" "\<not> isl (?outs ! i)" using sched(2) outs by auto
      with i show "a \<in> {IP (servers ! i) | i. i \<in> set sched \<and> \<not> isl (?outs ! i)}" by blast
    qed
  qed
  then show "fst ` set (stored_map servers ?outs sched []) = IP ` set servers"
    by (simp add: stored_map_keys)
qed

lemma getServerInfo_hit:
  "a \<in> IP ` set servers \<Longrightarrow>
   getServerInfo servers a \<in> set servers \<and> IP (getServerInfo servers a) = a"
  by (induction servers) auto

lemma getServerInfo_miss:
  "a \<notin> IP ` set servers \<Longrightarrow> getServerInfo servers a = RedfishServer_zero"
  by (induction servers) auto

lemma getServerInfo_nth:
  assumes "distinct (map IP servers)" "i < length servers"
  shows "getServerInfo servers (IP (servers ! i)) = servers ! i"
proof -
  let ?s = "getServerInfo servers (IP (servers ! i))"
  have "IP (servers ! i) \<in> IP ` set servers" using assms(2) by simp
  then have h: "?s \<in> set servers" "IP ?s = IP (servers ! i)"
    using getServerInfo_hit by blast+
  then obtain j where j: "j < length servers" "servers ! j = ?s"
    by (auto simp: in_set_conv_nth)
  then have "j = i" using distinct_map_nth_inj[OF assms(1) j(1) assms(2)] h(2) by simp
  with j show ?thesis by simp
qed

lemma delete_worker_sel:
  "run_serverIP (delete_worker g servers a u) = a"
  "run_subscriptionURI (delete_worker g servers a u) = u"
  "run_server (delete_worker g servers a u) = getServerInfo servers a"
  "run_err (delete_worker g servers a u) =
     fst (deleteSubscriptionFromServer g (getServerInfo servers a) u [])"
  by (simp_all add: delete_worker_def Let_def split: prod.splits)

lemma rollback_entries:
  "map (\<lambda>d. (run_serverIP d, run_subscriptionURI d))
       (snd (DeleteSubscriptionsFromAllServers renvs servers m)) = m"
  by (induction m) (auto simp: DeleteSubscriptionsFromAllServers_def delete_worker_sel)

lemma rollback_run:
  "d \<in> set (snd (DeleteSubscriptionsFromAllServers renvs servers m)) \<Longrightarrow>
   (run_serverIP d, run_subscriptionURI d) \<in> set m
   \<and> d = delete_worker (renvs (run_serverIP d)) servers (run_serverIP d) (run_subscriptionURI d)"
  by (auto simp: DeleteSubscriptionsFromAllServers_def delete_worker_sel)

lemma alist_key_once:
  "distinct (map fst m) \<Longrightarrow> k \<in> fst ` set m \<Longrightarrow> length (filter (\<lambda>e. fst e = k) m) = 1"
proof (induction m)
  case Nil
  then show ?case by simp
next
  case (Cons e m)
  show ?case
  proof (cases "fst e = k")
    case True
    then have "k \<notin> fst ` set m" using Cons.prems(1) by auto
    then have "filter (\<lambda>e. fst e = k) m = []" by (auto simp: filter_empty_conv)
    with True show ?thesis by simp
  next
    case False
    then show ?thesis using Cons by auto
  qed
qed

lemma rollback_target_once:
  assumes dm: "distinct (map fst m)"
    and keys: "fst ` set m \<subseteq> IP ` set servers"
    and k: "k \<in> fst ` set m"
  shows "length (filter (\<lambda>d. IP (run_server d) = k)
                  (snd (DeleteSubscriptionsFromAllServers renvs servers m))) = 1"
proof -
  have "filter (\<lambda>d. IP (run_server d) = k)
          (map (\<lambda>(a, u). delete_worker (renvs a) servers a u) m) =
        map (\<lambda>(a, u). delete_worker (renvs a) servers a u) (filter (\<lambda>e. fst e = k) m)"
    unfolding filter_map
  proof (intro arg_cong[where f = "map _"] filter_cong refl)
    fix e assume "e \<in> set m"
    then have "fst e \<in> IP ` set servers" using keys by auto
    then have "IP (getServerInfo servers (fst e)) = fst e" using getServerInfo_hit by blast
    then show "((\<lambda>d. IP (run_server d) = k) \<circ> (\<lambda>(a, u). delete_worker (renvs a) servers a u)) e
        = (fst e = k)"
      by (cases e) (simp add: delete_worker_sel)
  qed
  then show ?thesis
    using alist_key_once[OF dm k] by (simp add: DeleteSubscriptionsFromAllServers_def)
qed

lemma stored_map_create_entry:
  assumes sub: "set sched \<subseteq> {..<length servers}"
    and e: "(a, u) \<in> set (stored_map servers (create_outs envs servers p) sched [])"
  shows "\<exists>j<length servers. IP (servers ! j) = a \<and> create_result envs servers p j = Inr u"
proof -
  let ?outs = "create_outs envs servers p"
  let ?m = "stored_map servers ?outs sched []"
  let ?js = "filter (\<lambda>i. \<not> isl (?outs ! i) \<and> IP (servers ! i) = a) sched"
  have dm: "distinct (map fst ?m)" by (simp add: stored_map_distinct)
  then have "map_of ?m a = Some u" using e by simp
  then have ne: "?js \<noteq> []" and u: "projr (?outs ! last ?js) = u"
    by (auto simp: stored_map_lookup Let_def split: if_splits)
  from ne have "last ?js \<in> set ?js" by (rule last_in_set)
  then have l: "last ?js < length servers" "\<not> isl (?outs ! last ?js)"
      "IP (servers ! last ?js) = a"
    using sub by auto
  from l(2) u have "?outs ! last ?js = Inr u" by (cases "?outs ! last ?js") auto
  then have "create_result envs servers p (last ?js) = Inr u"
    using l(1) by (simp add: create_outs_Inr_iff)
  with l show ?thesis by blast
qed

lemma delete_calls_append: "delete_calls (xs @ ys) = delete_calls xs @ delete_calls ys"
  by (induction xs rule: delete_calls.induct) simp_all

lemma getRedfishClient_client:
  "getRedfishClient g server tr = (Inr c, tr1) \<Longrightarrow> c = IP server"
  by (auto simp: getRedfishClient_def Let_def split: option.splits)

lemma getRedfishClient_calls:
  "getRedfishClient g server tr = (r, tr1) \<Longrightarrow>
   delete_calls tr1 = delete_calls tr \<and> create_calls tr1 = create_calls tr"
  by (auto simp: getRedfishClient_def Let_def delete_calls_append create_calls_def
      split: option.splits)

lemma deleteSubscriptionFromServer_calls:
  assumes "deleteSubscriptionFromServer g server u tr = (r, tr1)"
  shows "create_calls tr1 = create_calls tr"
    and "delete_calls tr1 = delete_calls tr @ [(IP server, u)]
         \<or> (delete_calls tr1 = delete_calls tr \<and> r \<noteq> None)"
    and "r = None \<Longrightarrow> delete_calls tr1 = delete_calls tr @ [(IP server, u)]"
  using assms
  by (auto simp: deleteSubscriptionFromServer_def getRedfishClient_def Let_def
      delete_calls_append create_calls_def split: option.splits)

lemma getServerSubscriptions_calls:
  assumes "getServerSubscriptions g server tr = (r, tr1)"
  shows "create_calls tr1 = create_calls tr" and "delete_calls tr1 = delete_calls tr"
  using assms
  by (auto simp: getServerSubscriptions_def getRedfishClient_def Let_def
      delete_calls_append create_calls_def split: option.splits sum.splits)

lemma deleteConflicting_loop_create_calls:
  "create_calls (snd (deleteConflicting_loop g server p subs tr)) = create_calls tr"
proof (induction subs arbitrary: tr)
  case Nil
  then show ?case by simp
next
  case (Cons s subs)
  show ?case
  proof (cases "sub_Destination s = Destination p")
    case False
    then show ?thesis using Cons.IH by simp
  next
    case True
    obtain r tr1 where d: "deleteSubscriptionFromServer g server (ODataID s) tr = (r, tr1)"
      by (cases "deleteSubscriptionFromServer g server (ODataID s) tr")
    note c = deleteSubscriptionFromServer_calls(1)[OF d]
    show ?thesis
      using True d c Cons.IH by (cases r) (simp_all add: create_calls_def)
  qed
qed

lemma deleteConflictingSubscriptions_create_calls:
  "create_calls (snd (deleteConflictingSubscriptions g server p tr)) = create_calls tr"
proof -
  obtain r tr1 where l: "getServerSubscriptions g server tr = (r, tr1)"
    by (cases "getServerSubscriptions g server tr")
  show ?thesis
    using l getServerSubscriptions_calls(1)[OF l] deleteConflicting_loop_create_calls
    by (cases r) (simp_all add: deleteConflictingSubscriptions_def)
qed

lemma createLegacySubscription_trace:
  "snd (createLegacySubscription g c p tr) = tr @ [legacy_call c p]"
  by (simp add: createLegacySubscription_def legacy_call_def Let_def split: sum.splits)

lemma createSubscription_create_calls:
  "create_calls (snd (createSubscription g server p tr)) =
     create_calls tr @ (if session_opened g server tr then [legacy_call (IP server) p] else [])"
proof -
  obtain r tr1 where c: "getRedfishClient g server tr = (r, tr1)"
    by (cases "getRedfishClient g server tr")
  note cc = getRedfishClient_calls[OF c]
  show ?thesis
  proof (cases r)
    case (Inl err)
    then show ?thesis using c cc by (simp add: createSubscription_def session_opened_def)
  next
    case (Inr cl)
    then have cl: "cl = IP server" using c getRedfishClient_client by blast
    show ?thesis
    proof (cases "eventService_res g (tr1 @ [EventService cl])")
      case (Some err)
      then show ?thesis
        using c cc Inr
        by (simp add: createSubscription_def session_opened_def create_calls_def)
    next
      case None
      let ?tr3 = "snd (deleteConflictingSubscriptions g server p (tr1 @ [EventService cl]))"
      have "create_calls ?tr3 = create_calls tr"
        using deleteConflictingSubscriptions_create_calls[of g server p "tr1 @ [EventService cl]"] cc
        by (simp add: create_calls_def)
      moreover have "is_create (legacy_call cl p)" by (simp add: legacy_call_def)
      moreover obtain r4 tr4 where l: "createLegacySubscription g cl p ?tr3 = (r4, tr4)"
        by (cases "createLegacySubscription g cl p ?tr3")
      moreover have "tr4 = ?tr3 @ [legacy_call cl p]"
        using createLegacySubscription_trace[of g cl p ?tr3] l by simp
      moreover have "createSubscription g server p tr = (r4, tr4 @ [Logout cl])"
        using c Inr None l by (simp add: createSubscription_def isV1_5_def)
      moreover have "session_opened g server tr"
        using c Inr None by (simp add: session_opened_def)
      ultimately show ?thesis
        using cl by (simp add: create_calls_def)
    qed
  qed
qed

lemma deleteConflicting_loop_payload:
  assumes "Destination p' = Destination p"
  shows "deleteConflicting_loop g server p' subs tr = deleteConflicting_loop g server p subs tr"
proof (induction subs arbitrary: tr)
  case Nil
  then show ?case by simp
next
  case (Cons s subs)
  obtain r tr1 where d: "deleteSubscriptionFromServer g server (ODataID s) tr = (r, tr1)"
    by (cases "deleteSubscriptionFromServer g server (ODataID s) tr")
  show ?case
    using assms d Cons.IH by (cases r) simp_all
qed

lemma deleteConflictingSubscriptions_payload:
  assumes "Destination p' = Destination p"
  shows "deleteConflictingSubscriptions g server p' tr = deleteConflictingSubscriptions g server p tr"
proof -
  obtain r tr1 where l: "getServerSubscriptions g server tr = (r, tr1)"
    by (cases "getServerSubscriptions g server tr")
  show ?thesis
    using l deleteConflicting_loop_payload[OF assms]
    by (cases r) (simp_all add: deleteConflictingSubscriptions_def)
qed

lemma createLegacySubscription_payload:
  "createLegacySubscription g c
     (p\<lparr>RegistryPrefixes := rp, ResourceTypes := rt, DeliveryRetryPolicy := pol\<rparr>) tr =
   createLegacySubscription g c p tr"
  by (simp add: createLegacySubscription_def)

lemma createSubscription_payload:
  "createSubscription g server
        (p\<lparr>RegistryPrefixes := rp, ResourceTypes := rt, DeliveryRetryPolicy := pol\<rparr>) tr =
       createSubscription g server p tr"
proof -
  let ?p' = "p\<lparr>RegistryPrefixes := rp, ResourceTypes := rt, DeliveryRetryPolicy := pol\<rparr>"
  have dcs: "\<And>tr. deleteConflictingSubscriptions g server ?p' tr =
                   deleteConflictingSubscriptions g server p tr"
    by (rule deleteConflictingSubscriptions_payload) simp
  show ?thesis
    unfolding createSubscription_def isV1_5_def
    by (simp only: dcs createLegacySubscription_payload if_False)
qed

lemma createSubscription_bmc_ok: "fst (createSubscription (bmc_ok u) s p tr) = Inr u"
  by (simp add: createSubscription_def getRedfishClient_def bmc_ok_def isV1_5_def
      createLegacySubscription_def Let_def split: prod.splits)

lemma createSubscription_bmc_create_fails:
  "fst (createSubscription bmc_create_fails s p tr) = Inl ''failed to create legacy subscription: 503''"
  by (simp add: createSubscription_def getRedfishClient_def bmc_ok_def bmc_create_fails_def
      isV1_5_def createLegacySubscription_def Let_def split: prod.splits)

lemma sched_two: "set [1, 0::nat] = {..<length [x, y]}"
  by (auto simp: less_Suc_eq)

lemma delete_worker_zero_failed:
  assumes "getServerInfo servers a = RedfishServer_zero"
    and "connect_res g [Connect [] [] [] True] = Some err"
  shows "delete_worker g servers a u =
     \<lparr>run_serverIP = a, run_subscriptionURI = u, run_server = getServerInfo servers a,
      run_err = Some (''failed to connect to server : '' @ err),
      run_trace =
        [Connect [] [] [] True, Log (''Error connecting to redfish server : '' @ err),
         Log (''Failed to delete event subscription on server : failed to connect to server : ''
              @ err)]\<rparr>"
  using assms
  by (simp add: delete_worker_def deleteSubscriptionFromServer_def getRedfishClient_def
      RedfishServer_zero_def Let_def)

lemma rollback_has_run:
  "(a, u) \<in> set m \<Longrightarrow>
   delete_worker (renvs a) servers a u \<in> set (snd (DeleteSubscriptionsFromAllServers renvs servers m))"
  by (force simp: DeleteSubscriptionsFromAllServers_def)

lemma delete_worker_trace:
  "library_calls (run_trace (delete_worker g servers a u)) =
   library_calls (snd (deleteSubscriptionFromServer g (getServerInfo servers a) u []))"
  by (simp add: delete_worker_def library_calls_def Let_def split: prod.splits option.splits)

lemma delete_worker_delete_calls:
  "delete_calls (run_trace (delete_worker g servers a u)) =
   delete_calls (snd (deleteSubscriptionFromServer g (getServerInfo servers a) u []))"
  by (simp add: delete_worker_def delete_calls_append Let_def split: prod.splits option.splits)

lemma create_result_second_fails:
  "create_result second_fails [node ''a'', node ''b''] hook_payload 0 = Inr ''/s/1''"
  "create_result second_fails [node ''a'', node ''b''] hook_payload 1
     = Inl ''failed to create legacy subscription: 503''"
  by (simp_all add: create_result_def second_fails_def createSubscription_bmc_ok
      createSubscription_bmc_create_fails)

lemma sched_two_fwd: "set [0, 1::nat] = {..<length [x, y]}"
  by (auto simp: less_Suc_eq)

lemma create_result_none_ok:
  "create_result none_ok servers hook_payload i = Inl ''failed to create legacy subscription: 503''"
  by (simp add: create_result_def none_ok_def createSubscription_bmc_create_fails)

lemma deleteConflicting_loop_matching:
  "deleteConflicting_loop g server p subs tr =
   deleteConflicting_loop g server p (matching p subs) tr"
proof (induction subs arbitrary: tr)
  case Nil
  then show ?case by (simp add: matching_def)
next
  case (Cons s subs)
  show ?case
  proof (cases "sub_Destination s = Destination p")
    case False
    then show ?thesis using Cons.IH[of tr] by (simp add: matching_def)
  next
    case True
    obtain r tr1 where d: "deleteSubscriptionFromServer g server (ODataID s) tr = (r, tr1)"
      by (cases "deleteSubscriptionFromServer g server (ODataID s) tr")
    have m: "matching p (s # subs) = s # matching p subs" using True by (simp add: matching_def)
    show ?thesis
      unfolding m using True d Cons.IH by (cases r) simp_all
  qed
qed

lemma deleteConflicting_loop_run:
  assumes "\<forall>s\<in>set ms. sub_Destination s = Destination p"
  shows "\<exists>done rest trs.
           ms = done @ rest
         \<and> length trs = Suc (length done) \<and> hd trs = tr
         \<and> (\<forall>j<length done. \<exists>tr'.
               deleteSubscriptionFromServer g server (ODataID (done ! j)) (trs ! j) = (None, tr')
             \<and> trs ! Suc j =
                 tr' @ [Log (''successfully deleted overlapping event subscription ''
                             @ ID (done ! j) @ '' from server '' @ IP server)])
         \<and> delete_calls (last trs) = delete_calls tr @ map (\<lambda>s. (IP server, ODataID s)) done
         \<and> (case rest of
               [] \<Rightarrow> deleteConflicting_loop g server p ms tr = (None, last trs)
             | s # later \<Rightarrow>
                 (\<exists>err tr'.
                    deleteSubscriptionFromServer g server (ODataID s) (last trs) = (Some err, tr')
                  \<and> deleteConflicting_loop g server p ms tr =
                      (Some (''failed to delete event subscription '' @ ID s
                             @ '', on server '' @ IP server @ '': '' @ err), tr')
                  \<and> (delete_calls tr' = delete_calls (last trs)
                       \<or> delete_calls tr' = delete_calls (last trs) @ [(IP server, ODataID s)])))"
  using assms
proof (induction ms arbitrary: tr)
  case Nil
  show ?case
    apply (rule exI[where x = "[]"])
    apply (rule exI[where x = "[]"])
    apply (rule exI[where x = "[tr]"])
    by simp
next
  case (Cons s ms)
  then have match: "sub_Destination s = Destination p"
    and rest_match: "\<forall>s\<in>set ms. sub_Destination s = Destination p" by simp_all
  obtain r tr1 where d: "deleteSubscriptionFromServer g server (ODataID s) tr = (r, tr1)"
    by (cases "deleteSubscriptionFromServer g server (ODataID s) tr")
  show ?case
  proof (cases r)
    case (Some err)
    from deleteSubscriptionFromServer_calls(2)[OF d]
    have dc: "delete_calls tr1 = delete_calls tr
              \<or> delete_calls tr1 = delete_calls tr @ [(IP server, ODataID s)]" by blast
    show ?thesis
      apply (rule exI[where x = "[]"])
      apply (rule exI[where x = "s # ms"])
      apply (rule exI[where x = "[tr]"])
      using match d Some dc by simp
  next
    case None
    define tr2 where "tr2 = tr1 @ [Log (''successfully deleted overlapping event subscription ''
                               @ ID s @ '' from server '' @ IP server)]"
    have step: "deleteConflicting_loop g server p (s # ms) tr =
                deleteConflicting_loop g server p ms tr2"
      using match d None by (simp add: tr2_def)
    from deleteSubscriptionFromServer_calls(3)[OF d None]
    have dc2: "delete_calls tr2 = delete_calls tr @ [(IP server, ODataID s)]"
      by (simp add: delete_calls_append tr2_def)
    from Cons.IH[OF rest_match, of tr2] obtain dn rest trs where
      ih: "ms = dn @ rest" "length trs = Suc (length dn)" "hd trs = tr2"
        "\<forall>j<length dn. \<exists>tr'.
               deleteSubscriptionFromServer g server (ODataID (dn ! j)) (trs ! j) = (None, tr')
             \<and> trs ! Suc j =
                 tr' @ [Log (''successfully deleted overlapping event subscription ''
                             @ ID (dn ! j) @ '' from server '' @ IP server)]"
        "delete_calls (last trs) = delete_calls tr2 @ map (\<lambda>s. (IP server, ODataID s)) dn"
        "case rest of
               [] \<Rightarrow> deleteConflicting_loop g server p ms tr2 = (None, last trs)
             | s # later \<Rightarrow>
                 (\<exists>err tr'.
                    deleteSubscriptionFromServer g server (ODataID s) (last trs) = (Some err, tr')
                  \<and> deleteConflicting_loop g server p ms tr2 =
                      (Some (''failed to delete event subscription '' @ ID s
                             @ '', on server '' @ IP server @ '': '' @ err), tr')
                  \<and> (delete_calls tr' = delete_calls (last trs)
                       \<or> delete_calls tr' = delete_calls (last trs) @ [(IP server, ODataID s)]))"
      by (elim exE conjE) simp
    have ne: "trs \<noteq> []" using ih(2) by auto
    then have hd0: "trs ! 0 = tr2" using ih(3) by (simp add: hd_conv_nth)
    have a: "s # ms = (s # dn) @ rest" using ih(1) by simp
    have b: "length (tr # trs) = Suc (length (s # dn))" using ih(2) by simp
    have c: "hd (tr # trs) = tr" by simp
    have e: "\<forall>j<length (s # dn). \<exists>tr'.
               deleteSubscriptionFromServer g server (ODataID ((s # dn) ! j)) ((tr # trs) ! j)
                 = (None, tr')
             \<and> (tr # trs) ! Suc j =
                 tr' @ [Log (''successfully deleted overlapping event subscription ''
                             @ ID ((s # dn) ! j) @ '' from server '' @ IP server)]"
    proof (intro allI impI)
      fix j assume j: "j < length (s # dn)"
      show "\<exists>tr'.
               deleteSubscriptionFromServer g server (ODataID ((s # dn) ! j)) ((tr # trs) ! j)
                 = (None, tr')
             \<and> (tr # trs) ! Suc j =
                 tr' @ [Log (''successfully deleted overlapping event subscription ''
                             @ ID ((s # dn) ! j) @ '' from server '' @ IP server)]"
      proof (cases j)
        case 0
        then show ?thesis using d None hd0 by (simp add: tr2_def)
      next
        case (Suc j')
        then have "j' < length dn" using j by simp
        with ih(4) Suc show ?thesis by simp
      qed
    qed
    have f: "delete_calls (last (tr # trs)) =
             delete_calls tr @ map (\<lambda>s. (IP server, ODataID s)) (s # dn)"
      using ih(5) dc2 ne by simp
    have l: "last (tr # trs) = last trs" using ne by simp
    have h: "case rest of
               [] \<Rightarrow> deleteConflicting_loop g server p (s # ms) tr = (None, last (tr # trs))
             | s' # later \<Rightarrow>
                 (\<exists>err tr'.
                    deleteSubscriptionFromServer g server (ODataID s') (last (tr # trs))
                      = (Some err, tr')
                  \<and> deleteConflicting_loop g server p (s # ms) tr =
                      (Some (''failed to delete event subscription '' @ ID s'
                             @ '', on server '' @ IP server @ '': '' @ err), tr')
                  \<and> (delete_calls tr' = delete_calls (last (tr # trs))
                       \<or> delete_calls tr' =
                           delete_calls (last (tr # trs)) @ [(IP server, ODataID s')]))"
      unfolding l step using ih(6) .
    show ?thesis
      apply (rule exI[where x = "s # dn"])
      apply (rule exI[where x = rest])
      apply (rule exI[where x = "tr # trs"])
      apply (intro conjI)
      apply (rule a)
      apply (rule b)
      apply (rule c)
      apply (rule e)
      apply (rule f)
      apply (rule h)
      done
  qed
qed

lemma second_delete_fails_listing:
  "getServerSubscriptions bmc_second_delete_fails (node ''a'') []
     = (Inr [dup ''1'', other_sub, dup ''2'', dup ''3''],
        [Connect ''a'' ''root'' ''pw'' True, Log ''Successfully connected to redfish server a'',
         EventService ''a'', GetEventSubscriptions ''a'', Logout ''a''])"
  by (simp add: getServerSubscriptions_def getRedfishClient_def bmc_second_delete_fails_def
      bmc_ok_def node_def Let_def)

lemma second_delete_fails_delete:
  "fst (deleteSubscriptionFromServer bmc_second_delete_fails (node ''a'') u t) =
     (if u = ''/s/2'' then Some ''failed to delete event subscription on server a: 500'' else None)"
  "delete_calls (snd (deleteSubscriptionFromServer bmc_second_delete_fails (node ''a'') u t)) =
     delete_calls t @ [(''a'', u)]"
  by (simp_all add: deleteSubscriptionFromServer_def getRedfishClient_def
      bmc_second_delete_fails_def bmc_ok_def node_def Let_def delete_calls_append)

lemma append_eq_three:
  "xs @ ys = [a, b, c] \<Longrightarrow>
     xs = [] \<and> ys = [a, b, c] \<or> xs = [a] \<and> ys = [b, c]
   \<or> xs = [a, b] \<and> ys = [c] \<or> xs = [a, b, c] \<and> ys = []"
  by (auto simp: append_eq_Cons_conv)

lemma deleteSubscriptionFromServer_session:
  "session_opened g server [] \<Longrightarrow>
     library_calls (snd (deleteSubscriptionFromServer g server u [])) =
       [Connect (IP server) (Username server) (Password server) True, EventService (IP server),
        DeleteEventSubscription (IP server) u, Logout (IP server)]
   \<and> delete_calls (snd (deleteSubscriptionFromServer g server u [])) = [(IP server, u)]"
  "\<not> session_opened g server [] \<Longrightarrow>
     delete_calls (snd (deleteSubscriptionFromServer g server u [])) = []
   \<and> fst (deleteSubscriptionFromServer g server u []) \<noteq> None"
  by (auto simp: session_opened_def deleteSubscriptionFromServer_def getRedfishClient_def
      library_calls_def Let_def split: option.splits)

lemma delete_worker_session:
  "session_opened g (getServerInfo servers a) [] \<Longrightarrow>
     library_calls (run_trace (delete_worker g servers a u)) =
       [Connect (IP (getServerInfo servers a)) (Username (getServerInfo servers a))
          (Password (getServerInfo servers a)) True,
        EventService (IP (getServerInfo servers a)),
        DeleteEventSubscription (IP (getServerInfo servers a)) u,
        Logout (IP (getServerInfo servers a))]"
  "delete_calls (run_trace (delete_worker g servers a u)) =
     (if session_opened g (getServerInfo servers a) []
      then [(IP (getServerInfo servers a), u)] else [])"
  "\<not> session_opened g (getServerInfo servers a) [] \<Longrightarrow>
     run_err (delete_worker g servers a u) \<noteq> None"
  using deleteSubscriptionFromServer_session[of g "getServerInfo servers a" u]
  by (auto simp: delete_worker_trace delete_worker_delete_calls delete_worker_sel)

lemma stored_map_create_last:
  assumes sub: "set sched \<subseteq> {..<length servers}"
    and i: "i < length servers" and u: "create_result envs servers p i = Inr u"
    and "i \<in> set sched"
  shows "(IP (servers ! i),
          projr (create_result envs servers p
                   (last (filter (\<lambda>j. \<not> isl (create_result envs servers p j)
                                     \<and> IP (servers ! j) = IP (servers ! i)) sched))))
         \<in> set (stored_map servers (create_outs envs servers p) sched [])"
proof -
  let ?outs = "create_outs envs servers p"
  let ?m = "stored_map servers ?outs sched []"
  let ?js' = "filter (\<lambda>j. \<not> isl (?outs ! j) \<and> IP (servers ! j) = IP (servers ! i)) sched"
  let ?js = "filter (\<lambda>j. \<not> isl (create_result envs servers p j)
                          \<and> IP (servers ! j) = IP (servers ! i)) sched"
  have eq: "?js' = ?js"
    using sub by (intro filter_cong) (auto simp: create_outs_isl)
  have "i \<in> set ?js" using assms by simp
  then have ne: "?js \<noteq> []" by (metis empty_iff empty_set)
  then have "last ?js \<in> set ?js" by (rule last_in_set)
  then have l: "last ?js < length servers" "\<not> isl (create_result envs servers p (last ?js))"
    using sub by auto
  then obtain v where v: "create_result envs servers p (last ?js) = Inr v"
    by (cases "create_result envs servers p (last ?js)") auto
  then have "?outs ! last ?js = Inr v" using l(1) by (simp add: create_outs_Inr)
  then have "map_of ?m (IP (servers ! i)) = Some v"
    using ne by (simp add: stored_map_lookup Let_def eq)
  then have "(IP (servers ! i), v) \<in> set ?m" by (rule map_of_SomeD)
  then show ?thesis using v by simp
qed


subsection \<open>The claims\<close>

text \<open>
  In what follows \<open>sched\<close> is the order in which the workers of one call perform their
  shared action; it ranges over all orders of the indices \<open>0, \<dots>, N - 1\<close>. The oracles
  \<open>envs\<close> and \<open>renvs\<close> are arbitrary: the statements hold whatever the library and the
  controllers answer, except where a hypothesis says what they answer.
\<close>

text \<open>
  Claim C1. At least one per-server create fails: the call returns, with a nil map and a
  non-nil error. The rollback has run over the entries \<open>subscriptionMap st\<close> the workers
  recorded, one goroutine for each. So every server whose create succeeded is the target
  of exactly one compensating delete, which carries the identifier recorded under the
  server's address: the one of the worker that stored last for that address, which with
  distinct addresses is the server's own. The delete goes to a descriptor of the input
  list with the entry's address. It connects, looks up the event service, sends the one
  delete request for the entry's identifier and logs out; the request is missing only
  when the connection or the lookup fails in the rollback, and then the delete ends with
  an error.
\<close>

theorem rollback_on_failure:
  assumes sched: "distinct sched" "set sched = {..<length servers}"
    and fail: "\<exists>i<length servers. isl (create_result envs servers p i)"
  shows "\<exists>r st lg runs.
           CreateSubscriptionsForAllServers sched envs renvs servers p = Some r
         \<and> ret_map r = None \<and> ret_err r \<noteq> None
         \<and> run_workers servers (create_outs envs servers p) sched (fleet_init servers) = Some st
         \<and> rollback r = Some (lg, runs)
         \<and> distinct (map fst (subscriptionMap st))
         \<and> map (\<lambda>d. (run_serverIP d, run_subscriptionURI d)) runs = subscriptionMap st
         \<and> (\<forall>i<length servers. \<forall>u. create_result envs servers p i = Inr u \<longrightarrow>
               length (filter (\<lambda>d. IP (run_server d) = IP (servers ! i)) runs) = 1
             \<and> (\<exists>d\<in>set runs.
                   run_serverIP d = IP (servers ! i)
                 \<and> run_server d = getServerInfo servers (IP (servers ! i))
                 \<and> run_subscriptionURI d =
                     projr (create_result envs servers p
                              (last (filter (\<lambda>j. \<not> isl (create_result envs servers p j)
                                                \<and> IP (servers ! j) = IP (servers ! i)) sched)))))
         \<and> (\<forall>d\<in>set runs.
               run_server d \<in> set servers \<and> IP (run_server d) = run_serverIP d
             \<and> (\<exists>j<length servers. IP (servers ! j) = run_serverIP d
                    \<and> create_result envs servers p j = Inr (run_subscriptionURI d))
             \<and> delete_calls (run_trace d) =
                 (if session_opened (renvs (run_serverIP d)) (run_server d) []
                  then [(run_serverIP d, run_subscriptionURI d)] else [])
             \<and> (session_opened (renvs (run_serverIP d)) (run_server d) [] \<longrightarrow>
                   library_calls (run_trace d) =
                     [Connect (IP (run_server d)) (Username (run_server d))
                        (Password (run_server d)) True,
                      EventService (run_serverIP d),
                      DeleteEventSubscription (run_serverIP d) (run_subscriptionURI d),
                      Logout (run_serverIP d)])
             \<and> (\<not> session_opened (renvs (run_serverIP d)) (run_server d) [] \<longrightarrow>
                   run_err d \<noteq> None))
         \<and> (distinct (map IP servers) \<longrightarrow>
              (\<forall>i<length servers. \<forall>u. create_result envs servers p i = Inr u \<longrightarrow>
                 (\<exists>d\<in>set runs. run_server d = servers ! i \<and> run_subscriptionURI d = u)))"
proof -
  let ?outs = "create_outs envs servers p"
  let ?m = "stored_map servers ?outs sched []"
  let ?st = "\<lparr>subscriptionMap = ?m,
              errChan = \<lparr>capacity = length servers, buffer = sent_errors ?outs sched\<rparr>\<rparr>"
  let ?rb = "DeleteSubscriptionsFromAllServers renvs servers ?m"
  let ?runs = "snd ?rb"
  let ?r = "\<lparr>ret_map = None,
            ret_err = Some (''subscription process encountered errors: ''
                            @ fmt_strings (sent_errors ?outs sched)),
            create_traces = map snd (create_runs envs servers p),
            rollback = Some ?rb\<rparr>"
  have sub: "set sched \<subseteq> {..<length servers}" using sched(2) by simp
  from fail obtain i0 where i0: "i0 < length servers" "isl (create_result envs servers p i0)"
    by blast
  then have "i0 \<in> set sched" "isl (?outs ! i0)" using sched(2) by (simp_all add: create_outs_isl)
  then have ne: "sent_errors ?outs sched \<noteq> []" by (auto simp: sent_errors_empty_iff)
  have res: "CreateSubscriptionsForAllServers sched envs renvs servers p = Some ?r"
    using CreateAll_char[OF sched(1) sub, of envs renvs p] ne by (simp add: Let_def)
  have rw: "run_workers servers ?outs sched (fleet_init servers) = Some ?st"
    by (rule run_workers_fleet[OF sched(1) sub])
  have dm: "distinct (map fst ?m)" by (simp add: stored_map_distinct)
  have ent: "map (\<lambda>d. (run_serverIP d, run_subscriptionURI d)) ?runs = ?m"
    by (rule rollback_entries)
  have keys: "fst ` set ?m \<subseteq> IP ` set servers"
    using sub by (auto simp: stored_map_keys)
  have key_of: "IP (servers ! i) \<in> fst ` set ?m"
    if "i < length servers" "create_result envs servers p i = Inr u" for i u
  proof -
    have "i \<in> set sched" "\<not> isl (?outs ! i)" using that sched(2) by (simp_all add: create_outs_Inr)
    then show ?thesis unfolding stored_map_keys by blast
  qed
  have once: "\<forall>i<length servers. \<forall>u. create_result envs servers p i = Inr u \<longrightarrow>
               length (filter (\<lambda>d. IP (run_server d) = IP (servers ! i)) ?runs) = 1
             \<and> (\<exists>d\<in>set ?runs.
                   run_serverIP d = IP (servers ! i)
                 \<and> run_server d = getServerInfo servers (IP (servers ! i))
                 \<and> run_subscriptionURI d =
                     projr (create_result envs servers p
                              (last (filter (\<lambda>j. \<not> isl (create_result envs servers p j)
                                                \<and> IP (servers ! j) = IP (servers ! i)) sched))))"
  proof (intro allI impI)
    fix i u assume i: "i < length servers" and u: "create_result envs servers p i = Inr u"
    let ?v = "projr (create_result envs servers p
                (last (filter (\<lambda>j. \<not> isl (create_result envs servers p j)
                                  \<and> IP (servers ! j) = IP (servers ! i)) sched)))"
    let ?d = "delete_worker (renvs (IP (servers ! i))) servers (IP (servers ! i)) ?v"
    have a: "length (filter (\<lambda>d. IP (run_server d) = IP (servers ! i)) ?runs) = 1"
      by (rule rollback_target_once[OF dm keys key_of[OF i u]])
    have "i \<in> set sched" using i sched(2) by simp
    from stored_map_create_last[OF sub i u this]
    have "(IP (servers ! i), ?v) \<in> set ?m" .
    then have "?d \<in> set ?runs" by (rule rollback_has_run)
    moreover have "run_serverIP ?d = IP (servers ! i)"
      "run_server ?d = getServerInfo servers (IP (servers ! i))"
      "run_subscriptionURI ?d = ?v"
      by (simp_all add: delete_worker_sel)
    ultimately have b: "\<exists>d\<in>set ?runs.
                   run_serverIP d = IP (servers ! i)
                 \<and> run_server d = getServerInfo servers (IP (servers ! i))
                 \<and> run_subscriptionURI d = ?v" by blast
    from a b show "length (filter (\<lambda>d. IP (run_server d) = IP (servers ! i)) ?runs) = 1
             \<and> (\<exists>d\<in>set ?runs.
                   run_serverIP d = IP (servers ! i)
                 \<and> run_server d = getServerInfo servers (IP (servers ! i))
                 \<and> run_subscriptionURI d = ?v)" by (rule conjI)
  qed
  have each: "\<forall>d\<in>set ?runs.
               run_server d \<in> set servers \<and> IP (run_server d) = run_serverIP d
             \<and> (\<exists>j<length servers. IP (servers ! j) = run_serverIP d
                    \<and> create_result envs servers p j = Inr (run_subscriptionURI d))
             \<and> delete_calls (run_trace d) =
                 (if session_opened (renvs (run_serverIP d)) (run_server d) []
                  then [(run_serverIP d, run_subscriptionURI d)] else [])
             \<and> (session_opened (renvs (run_serverIP d)) (run_server d) [] \<longrightarrow>
                   library_calls (run_trace d) =
                     [Connect (IP (run_server d)) (Username (run_server d))
                        (Password (run_server d)) True,
                      EventService (run_serverIP d),
                      DeleteEventSubscription (run_serverIP d) (run_subscriptionURI d),
                      Logout (run_serverIP d)])
             \<and> (\<not> session_opened (renvs (run_serverIP d)) (run_server d) [] \<longrightarrow>
                   run_err d \<noteq> None)"
  proof
    fix d assume d: "d \<in> set ?runs"
    define a where "a = run_serverIP d"
    define u where "u = run_subscriptionURI d"
    define g where "g = renvs a"
    from rollback_run[OF d] have e: "(a, u) \<in> set ?m"
      and dw: "d = delete_worker g servers a u" by (simp_all add: a_def u_def g_def)
    from e have "a \<in> fst ` set ?m" by force
    then have "a \<in> IP ` set servers" using keys by blast
    from getServerInfo_hit[OF this] have
      hit: "getServerInfo servers a \<in> set servers" "IP (getServerInfo servers a) = a" by blast+
    have rs: "run_server d = getServerInfo servers a"
      using dw delete_worker_sel(3) by metis
    have s: "run_server d \<in> set servers" "IP (run_server d) = a" using hit rs by simp_all
    have j: "\<exists>j<length servers. IP (servers ! j) = a \<and> create_result envs servers p j = Inr u"
      by (rule stored_map_create_entry[OF sub e])
    have dc: "delete_calls (run_trace d) =
                 (if session_opened g (run_server d) [] then [(a, u)] else [])"
      using delete_worker_session(2)[of g servers a u] dw rs hit(2) by simp
    have lc: "session_opened g (run_server d) [] \<longrightarrow>
                   library_calls (run_trace d) =
                     [Connect (IP (run_server d)) (Username (run_server d))
                        (Password (run_server d)) True,
                      EventService a, DeleteEventSubscription a u, Logout a]"
      using delete_worker_session(1)[of g servers a u] dw rs hit(2) by simp
    have er: "\<not> session_opened g (run_server d) [] \<longrightarrow> run_err d \<noteq> None"
      using delete_worker_session(3)[of g servers a u] dw rs by simp
    from s j dc lc er
    show "run_server d \<in> set servers \<and> IP (run_server d) = run_serverIP d
             \<and> (\<exists>j<length servers. IP (servers ! j) = run_serverIP d
                    \<and> create_result envs servers p j = Inr (run_subscriptionURI d))
             \<and> delete_calls (run_trace d) =
                 (if session_opened (renvs (run_serverIP d)) (run_server d) []
                  then [(run_serverIP d, run_subscriptionURI d)] else [])
             \<and> (session_opened (renvs (run_serverIP d)) (run_server d) [] \<longrightarrow>
                   library_calls (run_trace d) =
                     [Connect (IP (run_server d)) (Username (run_server d))
                        (Password (run_server d)) True,
                      EventService (run_serverIP d),
                      DeleteEventSubscription (run_serverIP d) (run_subscriptionURI d),
                      Logout (run_serverIP d)])
             \<and> (\<not> session_opened (renvs (run_serverIP d)) (run_server d) [] \<longrightarrow>
                   run_err d \<noteq> None)"
      unfolding a_def[symmetric] u_def[symmetric] g_def[symmetric] by blast
  qed
  have dist: "distinct (map IP servers) \<longrightarrow>
              (\<forall>i<length servers. \<forall>u. create_result envs servers p i = Inr u \<longrightarrow>
                 (\<exists>d\<in>set ?runs. run_server d = servers ! i \<and> run_subscriptionURI d = u))"
  proof (intro impI allI)
    fix i u assume dis: "distinct (map IP servers)" and i: "i < length servers"
      and u: "create_result envs servers p i = Inr u"
    from key_of[OF i u] obtain v where v: "(IP (servers ! i), v) \<in> set ?m" by force
    from stored_map_create_entry[OF sub v] obtain j where
      j: "j < length servers" "IP (servers ! j) = IP (servers ! i)"
         "create_result envs servers p j = Inr v" by blast
    from distinct_map_nth_inj[OF dis j(1) i j(2)] j(3) u have "v = u" by simp
    let ?d = "delete_worker (renvs (IP (servers ! i))) servers (IP (servers ! i)) u"
    have "?d \<in> set ?runs"
      using v \<open>v = u\<close> by (force simp: DeleteSubscriptionsFromAllServers_def)
    moreover have "run_server ?d = servers ! i"
      by (simp add: delete_worker_sel getServerInfo_nth[OF dis i])
    moreover have "run_subscriptionURI ?d = u" by (simp add: delete_worker_sel)
    ultimately show "\<exists>d\<in>set ?runs. run_server d = servers ! i \<and> run_subscriptionURI d = u"
      by blast
  qed
  have rb: "rollback ?r = Some (fst ?rb, ?runs)" by simp
  show ?thesis
    apply (rule exI[where x = ?r])
    apply (rule exI[where x = ?st])
    apply (rule exI[where x = "fst ?rb"])
    apply (rule exI[where x = ?runs])
    apply (intro conjI)
    apply (rule res)
    apply simp
    apply simp
    apply (rule rw)
    apply (rule rb)
    apply (simp add: dm)
    apply (simp add: ent)
    apply (rule once)
    apply (rule each)
    apply (rule dist)
    done
qed

theorem rollback_on_failure_witness:
  "\<exists>r lg runs.
      CreateSubscriptionsForAllServers [0, 1] second_fails all_ok [node ''a'', node ''b'']
        hook_payload = Some r
    \<and> ret_map r = None \<and> ret_err r \<noteq> None \<and> rollback r = Some (lg, runs)
    \<and> length (filter (\<lambda>d. IP (run_server d) = ''a'') runs) = 1
    \<and> (\<exists>d\<in>set runs. run_server d = node ''a'' \<and> run_subscriptionURI d = ''/s/1''
          \<and> delete_calls (run_trace d) = [(''a'', ''/s/1'')]
          \<and> library_calls (run_trace d) =
              [Connect ''a'' ''root'' ''pw'' True, EventService ''a'',
               DeleteEventSubscription ''a'' ''/s/1'', Logout ''a''])"
proof -
  let ?servers = "[node ''a'', node ''b'']"
  have h1: "distinct [0, 1::nat]" by simp
  have h2: "set [0, 1::nat] = {..<length ?servers}" by (rule sched_two_fwd)
  have h3: "\<exists>i<length ?servers. isl (create_result second_fails ?servers hook_payload i)"
    using create_result_second_fails(2) by (intro exI[where x = 1]) simp
  have dis: "distinct (map IP ?servers)" by (simp add: node_def)
  have so: "session_opened (all_ok ''a'') (node ''a'') []"
    by (simp add: session_opened_def getRedfishClient_def all_ok_def bmc_ok_def)
  from rollback_on_failure[OF h1 h2 h3, of all_ok] obtain r lg runs where
    r: "CreateSubscriptionsForAllServers [0, 1] second_fails all_ok ?servers hook_payload = Some r"
       "ret_map r = None" "ret_err r \<noteq> None" "rollback r = Some (lg, runs)"
       "\<forall>i<length ?servers. \<forall>u. create_result second_fails ?servers hook_payload i = Inr u \<longrightarrow>
               length (filter (\<lambda>d. IP (run_server d) = IP (?servers ! i)) runs) = 1"
       "\<forall>d\<in>set runs.
           IP (run_server d) = run_serverIP d
         \<and> delete_calls (run_trace d) =
             (if session_opened (all_ok (run_serverIP d)) (run_server d) []
              then [(run_serverIP d, run_subscriptionURI d)] else [])
         \<and> (session_opened (all_ok (run_serverIP d)) (run_server d) [] \<longrightarrow>
               library_calls (run_trace d) =
                 [Connect (IP (run_server d)) (Username (run_server d))
                    (Password (run_server d)) True,
                  EventService (run_serverIP d),
                  DeleteEventSubscription (run_serverIP d) (run_subscriptionURI d),
                  Logout (run_serverIP d)])"
       "distinct (map IP ?servers) \<longrightarrow>
              (\<forall>i<length ?servers. \<forall>u. create_result second_fails ?servers hook_payload i = Inr u \<longrightarrow>
                 (\<exists>d\<in>set runs. run_server d = ?servers ! i \<and> run_subscriptionURI d = u))"
    by (elim exE conjE) blast
  from r(5)[rule_format, of 0 "''/s/1''"] create_result_second_fails(1)
  have a: "length (filter (\<lambda>d. IP (run_server d) = ''a'') runs) = 1"
    by (simp add: node_def)
  from r(7)[rule_format, OF dis, of 0 "''/s/1''"] create_result_second_fails(1)
  obtain d where d: "d \<in> set runs" "run_server d = node ''a''" "run_subscriptionURI d = ''/s/1''"
    by auto
  from r(6)[rule_format, OF d(1)] d(2,3)
  have ip: "run_serverIP d = ''a''" by (simp add: node_def)
  from r(6)[rule_format, OF d(1)] d(2,3) ip so
  have "delete_calls (run_trace d) = [(''a'', ''/s/1'')]"
    "library_calls (run_trace d) =
              [Connect ''a'' ''root'' ''pw'' True, EventService ''a'',
               DeleteEventSubscription ''a'' ''/s/1'', Logout ''a'']"
    by (simp_all add: node_def)
  with d have b: "\<exists>d\<in>set runs. run_server d = node ''a'' \<and> run_subscriptionURI d = ''/s/1''
          \<and> delete_calls (run_trace d) = [(''a'', ''/s/1'')]
          \<and> library_calls (run_trace d) =
              [Connect ''a'' ''root'' ''pw'' True, EventService ''a'',
               DeleteEventSubscription ''a'' ''/s/1'', Logout ''a'']"
    by blast
  show ?thesis using r(1-4) a b by blast
qed

text \<open>
  Claim C2. Servers with pairwise distinct addresses, every per-server create succeeds,
  on server \<open>i\<close> with identifier \<open>uri i\<close>: whatever the order in which the workers
  finish, the call returns, with a nil error and a map of exactly as many entries as
  there are servers, one under each server's address, holding that server's identifier.
  For no server at all it is the empty (non-nil) map.
\<close>

theorem all_created_map:
  assumes dis: "distinct (map IP servers)"
    and sched: "distinct sched" "set sched = {..<length servers}"
    and ok: "\<forall>i<length servers. create_result envs servers p i = Inr (uri i)"
  shows "\<exists>r m. CreateSubscriptionsForAllServers sched envs renvs servers p = Some r
           \<and> ret_err r = None \<and> ret_map r = Some m
           \<and> length m = length servers \<and> distinct (map fst m)
           \<and> fst ` set m = IP ` set servers
           \<and> (\<forall>i<length servers. map_of m (IP (servers ! i)) = Some (uri i))"
proof -
  let ?outs = "create_outs envs servers p"
  let ?m = "stored_map servers ?outs sched []"
  have outs: "\<And>i. i < length servers \<Longrightarrow> ?outs ! i = Inr (uri i)"
    using ok by (simp add: create_outs_Inr)
  have noerr: "sent_errors ?outs sched = []"
    using sched(2) outs by (auto simp: sent_errors_empty_iff)
  have sub: "set sched \<subseteq> {..<length servers}" using sched(2) by simp
  have res: "CreateSubscriptionsForAllServers sched envs renvs servers p =
     Some \<lparr>ret_map = Some ?m, ret_err = None,
           create_traces = map snd (create_runs envs servers p), rollback = None\<rparr>"
    using CreateAll_char[OF sched(1) sub, of envs renvs p] noerr by (simp add: Let_def)
  have dm: "distinct (map fst ?m)" by (simp add: stored_map_distinct)
  have "{IP (servers ! i) | i. i \<in> set sched \<and> \<not> isl (?outs ! i)} = IP ` set servers"
  proof
    show "{IP (servers ! i) | i. i \<in> set sched \<and> \<not> isl (?outs ! i)} \<subseteq> IP ` set servers"
      using sched(2) by auto
    show "IP ` set servers \<subseteq> {IP (servers ! i) | i. i \<in> set sched \<and> \<not> isl (?outs ! i)}"
    proof
      fix a assume "a \<in> IP ` set servers"
      then obtain i where i: "i < length servers" "a = IP (servers ! i)"
        by (auto simp: in_set_conv_nth)
      then have "i \<in> set sched" "\<not> isl (?outs ! i)" using sched(2) outs by auto
      with i show "a \<in> {IP (servers ! i) | i. i \<in> set sched \<and> \<not> isl (?outs ! i)}" by blast
    qed
  qed
  then have keys: "fst ` set ?m = IP ` set servers"
    by (simp add: stored_map_keys)
  have len: "length ?m = length servers"
  proof -
    have "length ?m = card (IP ` set servers)" using alist_length_card[OF dm] keys by simp
    also have "\<dots> = length (map IP servers)" using dis by (metis distinct_card set_map)
    finally show ?thesis by simp
  qed
  have look: "map_of ?m (IP (servers ! i)) = Some (uri i)" if i: "i < length servers" for i
  proof -
    let ?js = "filter (\<lambda>j. \<not> isl (?outs ! j) \<and> IP (servers ! j) = IP (servers ! i)) sched"
    have "i \<in> set ?js" using i sched(2) outs by auto
    then have ne: "?js \<noteq> []" by (metis empty_iff empty_set)
    then have "last ?js \<in> set ?js" by (rule last_in_set)
    then have l: "last ?js < length servers" "IP (servers ! last ?js) = IP (servers ! i)"
      using sched(2) by auto
    then have "last ?js = i"
      using distinct_map_nth_inj[OF dis l(1) i] by simp
    then show ?thesis using ne outs[OF i] by (simp add: stored_map_lookup Let_def)
  qed
  show ?thesis using res dm keys len look by simp
qed

theorem all_created_map_witness:
  "\<exists>r m. CreateSubscriptionsForAllServers [1, 0] two_ok all_ok [node ''a'', node ''b''] hook_payload
            = Some r
         \<and> ret_err r = None \<and> ret_map r = Some m \<and> length m = 2
         \<and> map_of m ''a'' = Some ''/s/1'' \<and> map_of m ''b'' = Some ''/s/2''"
proof -
  let ?servers = "[node ''a'', node ''b'']"
  have h1: "distinct (map IP ?servers)" by (simp add: node_def)
  have h2: "distinct [1, 0::nat]" by simp
  have h3: "set [1, 0::nat] = {..<length ?servers}" by (rule sched_two)
  have h4: "\<forall>i<length ?servers. create_result two_ok ?servers hook_payload i = Inr (two_uri i)"
    by (simp add: create_result_def two_ok_def createSubscription_bmc_ok)
  from all_created_map[OF h1 h2 h3 h4, of all_ok] obtain r m where
    r: "CreateSubscriptionsForAllServers [1, 0] two_ok all_ok ?servers hook_payload = Some r"
       "ret_err r = None" "ret_map r = Some m" "length m = length ?servers"
       "\<forall>i<length ?servers. map_of m (IP (?servers ! i)) = Some (two_uri i)"
    by (elim exE conjE) simp
  from r(5)[rule_format, of 0] r(5)[rule_format, of 1]
  have "map_of m ''a'' = Some ''/s/1''" "map_of m ''b'' = Some ''/s/2''"
    by (simp_all add: node_def two_uri_def)
  with r show ?thesis by simp
qed

text \<open>
  Claim C3 says that a server whose duplicate cleanup fails gets no create and reports
  the cleanup error. The code calls \<open>deleteConflictingSubscriptions\<close> and drops its
  result. On a controller that fails the listing the cleanup returns its error, and
  \<open>createSubscription\<close> still sends the create request and returns the new identifier
  with no error; the same on a controller that fails the delete of a duplicate.
\<close>

theorem cleanup_error_dropped:
  "fst (deleteConflictingSubscriptions bmc_list_fails (node ''a'') hook_payload session_trace)
     = Some ''failed to get event subscriptions on server a: 500''
   \<and> fst (createSubscription bmc_list_fails (node ''a'') hook_payload []) = Inr ''/s/9''
   \<and> create_calls (snd (createSubscription bmc_list_fails (node ''a'') hook_payload []))
       = [CreateEventSubscription ''a'' ''http://hook/x'' [''Alert''] Map.empty
            ''Redfish'' ''ctx'' []]
   \<and> fst (deleteConflictingSubscriptions bmc_first_delete_fails (node ''a'') hook_payload
            session_trace)
       = Some ''failed to delete event subscription 1, on server a: failed to delete event subscription on server a: 500''
   \<and> fst (createSubscription bmc_first_delete_fails (node ''a'') hook_payload []) = Inr ''/s/9''"
  by (simp add: createSubscription_def deleteConflictingSubscriptions_def
      getServerSubscriptions_def deleteSubscriptionFromServer_def getRedfishClient_def
      createLegacySubscription_def isV1_5_def create_calls_def
      bmc_list_fails_def bmc_first_delete_fails_def bmc_ok_def node_def dup_def
      hook_payload_def session_trace_def Let_def)



text \<open>
  Claim C5. At least one per-server create fails: the call returns a nil map and a
  non-nil error whose message is the fixed prefix followed by the messages of all failed
  servers, each exactly once, in the order in which the workers failed, as
  \<open>%s\<close> prints a slice of strings (between brackets, separated by a space); each
  message names its server's address before the server's own error.
\<close>

theorem aggregate_error:
  assumes sched: "distinct sched" "set sched = {..<length servers}"
    and fail: "\<exists>i<length servers. isl (create_result envs servers p i)"
  shows "\<exists>r failed. CreateSubscriptionsForAllServers sched envs renvs servers p = Some r
           \<and> ret_map r = None
           \<and> failed = filter (\<lambda>i. isl (create_result envs servers p i)) sched
           \<and> set failed = {i. i < length servers \<and> isl (create_result envs servers p i)}
           \<and> distinct failed
           \<and> ret_err r = Some (''subscription process encountered errors: ''
                               @ fmt_strings (map (failure_message envs servers p) failed))"
proof -
  let ?outs = "create_outs envs servers p"
  let ?failed = "filter (\<lambda>i. isl (create_result envs servers p i)) sched"
  have sub: "set sched \<subseteq> {..<length servers}" using sched(2) by simp
  have se: "sent_errors ?outs sched = map (failure_message envs servers p) ?failed"
    by (rule sent_errors_create[OF sub])
  from fail obtain i where "i < length servers" "isl (create_result envs servers p i)" by blast
  then have "i \<in> set ?failed" using sched(2) by simp
  then have ne: "?failed \<noteq> []" by (metis empty_iff empty_set)
  have "set ?failed = {i. i < length servers \<and> isl (create_result envs servers p i)}"
    using sched(2) by auto
  moreover have "distinct ?failed" using sched(1) by simp
  ultimately show ?thesis
    using CreateAll_char[OF sched(1) sub, of envs renvs p] se ne by (simp add: Let_def)
qed

theorem aggregate_error_witness:
  "\<exists>r. CreateSubscriptionsForAllServers [1, 0] none_ok all_ok [node ''a'', node ''b''] hook_payload
          = Some r
      \<and> ret_map r = None
      \<and> ret_err r = Some (''subscription process encountered errors: ''
            @ ''[subscription failed on server b: failed to create legacy subscription: 503''
            @ '' subscription failed on server a: failed to create legacy subscription: 503]'')"
proof -
  let ?servers = "[node ''a'', node ''b'']"
  have h1: "distinct [1, 0::nat]" by simp
  have h2: "set [1, 0::nat] = {..<length ?servers}" by (rule sched_two)
  have h3: "\<exists>i<length ?servers. isl (create_result none_ok ?servers hook_payload i)"
    by (rule exI[where x = 0]) (simp add: create_result_none_ok)
  from aggregate_error[OF h1 h2 h3, of all_ok] obtain r where
    r: "CreateSubscriptionsForAllServers [1, 0] none_ok all_ok ?servers hook_payload = Some r"
       "ret_map r = None"
       "ret_err r = Some (''subscription process encountered errors: ''
          @ fmt_strings (map (failure_message none_ok ?servers hook_payload)
               (filter (\<lambda>i. isl (create_result none_ok ?servers hook_payload i)) [1, 0])))"
    by (elim exE conjE) simp
  from r(3) have "ret_err r = Some (''subscription process encountered errors: ''
            @ ''[subscription failed on server b: failed to create legacy subscription: 503''
            @ '' subscription failed on server a: failed to create legacy subscription: 503]'')"
    by (simp add: create_result_none_ok failure_message_def fmt_strings_def node_def)
  with r(1,2) show ?thesis by blast
qed

text \<open>
  Claim C6, as amended. Let the listing succeed with \<open>subs\<close>. The listed subscriptions
  with the payload's destination split into \<open>done\<close> and \<open>rest\<close>. Those of \<open>done\<close> were
  deleted one after the other, each delete succeeding on the calls made up to it
  (\<open>trs\<close>), and their delete requests are the ones sent so far. If \<open>rest\<close> is empty the
  cleanup returns no error. Otherwise the delete of the first of \<open>rest\<close> was tried next
  and failed, the cleanup returns that failure, naming the subscription, and nothing is
  done for the later ones; of the failed one the request was sent or not, as the failure
  came from the request or before it. No delete is tried for another destination. When
  every delete of a matching subscription succeeds, the cleanup returns no error and has
  sent the delete requests of exactly the matching subscriptions. The payload matters
  through its destination alone.
\<close>

theorem cleanup_stops_at_first_failing_delete:
  assumes listing: "getServerSubscriptions g server tr = (Inr subs, tr1)"
  shows "(\<exists>done rest trs.
            filter (\<lambda>s. sub_Destination s = Destination p) subs = done @ rest
          \<and> length trs = Suc (length done) \<and> hd trs = tr1
          \<and> (\<forall>j<length done. \<exists>tr'.
                deleteSubscriptionFromServer g server (ODataID (done ! j)) (trs ! j) = (None, tr')
              \<and> trs ! Suc j =
                  tr' @ [Log (''successfully deleted overlapping event subscription ''
                              @ ID (done ! j) @ '' from server '' @ IP server)])
          \<and> delete_calls (last trs) = delete_calls tr @ map (\<lambda>s. (IP server, ODataID s)) done
          \<and> (case rest of
                [] \<Rightarrow> deleteConflictingSubscriptions g server p tr = (None, last trs)
              | s # later \<Rightarrow>
                  (\<exists>err tr'.
                     deleteSubscriptionFromServer g server (ODataID s) (last trs) = (Some err, tr')
                   \<and> deleteConflictingSubscriptions g server p tr =
                       (Some (''failed to delete event subscription '' @ ID s
                              @ '', on server '' @ IP server @ '': '' @ err), tr')
                   \<and> (delete_calls tr' = delete_calls (last trs)
                        \<or> delete_calls tr' = delete_calls (last trs) @ [(IP server, ODataID s)]))))
       \<and> ((\<forall>s\<in>set subs. sub_Destination s = Destination p \<longrightarrow>
               (\<forall>tr'. fst (deleteSubscriptionFromServer g server (ODataID s) tr') = None)) \<longrightarrow>
            fst (deleteConflictingSubscriptions g server p tr) = None
          \<and> delete_calls (snd (deleteConflictingSubscriptions g server p tr)) =
              delete_calls tr
              @ map (\<lambda>s. (IP server, ODataID s))
                  (filter (\<lambda>s. sub_Destination s = Destination p) subs))
       \<and> (Destination p' = Destination p \<longrightarrow>
            deleteConflictingSubscriptions g server p' tr =
            deleteConflictingSubscriptions g server p tr)"
proof -
  let ?ms = "filter (\<lambda>s. sub_Destination s = Destination p) subs"
  have dcs: "deleteConflictingSubscriptions g server p tr = deleteConflicting_loop g server p ?ms tr1"
    using listing deleteConflicting_loop_matching[of g server p subs tr1]
    by (simp add: deleteConflictingSubscriptions_def matching_def)
  have dl: "delete_calls tr1 = delete_calls tr"
    by (rule getServerSubscriptions_calls(2)[OF listing])
  have all_match: "\<forall>s\<in>set ?ms. sub_Destination s = Destination p" by simp
  have main: "\<exists>done rest trs.
            ?ms = done @ rest
          \<and> length trs = Suc (length done) \<and> hd trs = tr1
          \<and> (\<forall>j<length done. \<exists>tr'.
                deleteSubscriptionFromServer g server (ODataID (done ! j)) (trs ! j) = (None, tr')
              \<and> trs ! Suc j =
                  tr' @ [Log (''successfully deleted overlapping event subscription ''
                              @ ID (done ! j) @ '' from server '' @ IP server)])
          \<and> delete_calls (last trs) = delete_calls tr @ map (\<lambda>s. (IP server, ODataID s)) done
          \<and> (case rest of
                [] \<Rightarrow> deleteConflictingSubscriptions g server p tr = (None, last trs)
              | s # later \<Rightarrow>
                  (\<exists>err tr'.
                     deleteSubscriptionFromServer g server (ODataID s) (last trs) = (Some err, tr')
                   \<and> deleteConflictingSubscriptions g server p tr =
                       (Some (''failed to delete event subscription '' @ ID s
                              @ '', on server '' @ IP server @ '': '' @ err), tr')
                   \<and> (delete_calls tr' = delete_calls (last trs)
                        \<or> delete_calls tr' = delete_calls (last trs) @ [(IP server, ODataID s)])))"
    using deleteConflicting_loop_run[OF all_match, where g = g and server = server and tr = tr1]
    unfolding dcs dl .
  have nofail: "(\<forall>s\<in>set subs. sub_Destination s = Destination p \<longrightarrow>
               (\<forall>tr'. fst (deleteSubscriptionFromServer g server (ODataID s) tr') = None)) \<longrightarrow>
            fst (deleteConflictingSubscriptions g server p tr) = None
          \<and> delete_calls (snd (deleteConflictingSubscriptions g server p tr)) =
              delete_calls tr @ map (\<lambda>s. (IP server, ODataID s)) ?ms"
  proof
    assume ok: "\<forall>s\<in>set subs. sub_Destination s = Destination p \<longrightarrow>
               (\<forall>tr'. fst (deleteSubscriptionFromServer g server (ODataID s) tr') = None)"
    from main obtain dn rest trs where
      m: "?ms = dn @ rest"
         "delete_calls (last trs) = delete_calls tr @ map (\<lambda>s. (IP server, ODataID s)) dn"
         "case rest of
                [] \<Rightarrow> deleteConflictingSubscriptions g server p tr = (None, last trs)
              | s # later \<Rightarrow>
                  (\<exists>err tr'.
                     deleteSubscriptionFromServer g server (ODataID s) (last trs) = (Some err, tr')
                   \<and> deleteConflictingSubscriptions g server p tr =
                       (Some (''failed to delete event subscription '' @ ID s
                              @ '', on server '' @ IP server @ '': '' @ err), tr')
                   \<and> (delete_calls tr' = delete_calls (last trs)
                        \<or> delete_calls tr' = delete_calls (last trs) @ [(IP server, ODataID s)]))"
      by (elim exE conjE) simp
    have "rest = []"
    proof (cases rest)
      case Nil
      then show ?thesis .
    next
      case (Cons s later)
      then have "s \<in> set ?ms" using m(1) by simp
      then have "s \<in> set subs" "sub_Destination s = Destination p" by simp_all
      with ok have "fst (deleteSubscriptionFromServer g server (ODataID s) (last trs)) = None"
        by blast
      moreover from m(3) Cons obtain err tr' where
        "deleteSubscriptionFromServer g server (ODataID s) (last trs) = (Some err, tr')"
        by auto
      ultimately show ?thesis by simp
    qed
    with m show "fst (deleteConflictingSubscriptions g server p tr) = None
          \<and> delete_calls (snd (deleteConflictingSubscriptions g server p tr)) =
              delete_calls tr @ map (\<lambda>s. (IP server, ODataID s)) ?ms"
      by simp
  qed
  have pay: "Destination p' = Destination p \<longrightarrow>
            deleteConflictingSubscriptions g server p' tr =
            deleteConflictingSubscriptions g server p tr"
    using deleteConflictingSubscriptions_payload by blast
  show ?thesis
    apply (intro conjI)
    apply (rule main)
    apply (rule nofail)
    apply (rule pay)
    done
qed

theorem cleanup_stops_at_first_failing_delete_witness:
  "getServerSubscriptions bmc_second_delete_fails (node ''a'') []
     = (Inr [dup ''1'', other_sub, dup ''2'', dup ''3''],
        [Connect ''a'' ''root'' ''pw'' True, Log ''Successfully connected to redfish server a'',
         EventService ''a'', GetEventSubscriptions ''a'', Logout ''a''])
   \<and> fst (deleteConflictingSubscriptions bmc_second_delete_fails (node ''a'') hook_payload [])
       = Some ''failed to delete event subscription 2, on server a: failed to delete event subscription on server a: 500''
   \<and> delete_calls (snd (deleteConflictingSubscriptions bmc_second_delete_fails (node ''a'')
                          hook_payload []))
       = [(''a'', ''/s/1''), (''a'', ''/s/2'')]"
proof -
  let ?g = bmc_second_delete_fails
  let ?srv = "node ''a''"
  let ?d1 = "dup ''1''" let ?d2 = "dup ''2''" let ?d3 = "dup ''3''"
  note listing = second_delete_fails_listing
  have ms: "filter (\<lambda>s. sub_Destination s = Destination hook_payload)
              [?d1, other_sub, ?d2, ?d3] = [?d1, ?d2, ?d3]"
    by (simp add: dup_def other_sub_def hook_payload_def)
  have ids: "ODataID ?d1 = ''/s/1''" "ODataID ?d2 = ''/s/2''" "ODataID ?d3 = ''/s/3''"
    "ID ?d2 = ''2''" "IP ?srv = ''a''"
    by (simp_all add: dup_def node_def)
  from cleanup_stops_at_first_failing_delete[OF listing, of hook_payload hook_payload]
  obtain dn rest trs where
    m: "[?d1, ?d2, ?d3] = dn @ rest"
       "\<forall>j<length dn. \<exists>tr'.
           deleteSubscriptionFromServer ?g ?srv (ODataID (dn ! j)) (trs ! j) = (None, tr')
         \<and> trs ! Suc j =
             tr' @ [Log (''successfully deleted overlapping event subscription ''
                         @ ID (dn ! j) @ '' from server '' @ IP ?srv)]"
       "delete_calls (last trs) = delete_calls [] @ map (\<lambda>s. (IP ?srv, ODataID s)) dn"
       "case rest of
          [] \<Rightarrow> deleteConflictingSubscriptions ?g ?srv hook_payload [] = (None, last trs)
        | s # later \<Rightarrow>
            (\<exists>err tr'.
               deleteSubscriptionFromServer ?g ?srv (ODataID s) (last trs) = (Some err, tr')
             \<and> deleteConflictingSubscriptions ?g ?srv hook_payload [] =
                 (Some (''failed to delete event subscription '' @ ID s
                        @ '', on server '' @ IP ?srv @ '': '' @ err), tr')
             \<and> (delete_calls tr' = delete_calls (last trs)
                  \<or> delete_calls tr' = delete_calls (last trs) @ [(IP ?srv, ODataID s)]))"
    unfolding ms by (elim exE conjE) simp
  have second: "\<not> (1 < length dn \<and> dn ! 1 = ?d2)"
  proof
    assume a: "1 < length dn \<and> dn ! 1 = ?d2"
    with m(2) obtain tr' where
      "deleteSubscriptionFromServer ?g ?srv (ODataID ?d2) (trs ! 1) = (None, tr')" by force
    then have "fst (deleteSubscriptionFromServer ?g ?srv ''/s/2'' (trs ! 1)) = None"
      by (simp add: ids)
    then show False by (simp add: second_delete_fails_delete)
  qed
  from append_eq_three[OF m(1)[symmetric]] second
  have "dn = [] \<and> rest = [?d1, ?d2, ?d3] \<or> dn = [?d1] \<and> rest = [?d2, ?d3]" by auto
  moreover have "\<not> (dn = [] \<and> rest = [?d1, ?d2, ?d3])"
  proof
    assume "dn = [] \<and> rest = [?d1, ?d2, ?d3]"
    with m(4) obtain err tr' where
      "deleteSubscriptionFromServer ?g ?srv (ODataID ?d1) (last trs) = (Some err, tr')" by auto
    then have "fst (deleteSubscriptionFromServer ?g ?srv ''/s/1'' (last trs)) = Some err"
      by (simp add: ids)
    then show False by (simp add: second_delete_fails_delete)
  qed
  ultimately have dn: "dn = [?d1]" and rest: "rest = [?d2, ?d3]" by auto
  from m(4) rest obtain err tr' where
    f: "deleteSubscriptionFromServer ?g ?srv ''/s/2'' (last trs) = (Some err, tr')"
       "deleteConflictingSubscriptions ?g ?srv hook_payload [] =
          (Some (''failed to delete event subscription 2, on server a: '' @ err), tr')"
    by (auto simp: ids)
  from f(1) second_delete_fails_delete(1)[of "''/s/2''" "last trs"]
  have err: "err = ''failed to delete event subscription on server a: 500''" by simp
  from f(1) second_delete_fails_delete(2)[of "''/s/2''" "last trs"]
  have "delete_calls tr' = delete_calls (last trs) @ [(''a'', ''/s/2'')]" by simp
  with m(3) dn have dc: "delete_calls tr' = [(''a'', ''/s/1''), (''a'', ''/s/2'')]"
    by (simp add: ids)
  show ?thesis using listing f(2) err dc by simp
qed

text \<open>
  Claim C6 as stated (every listed subscription with the payload's destination is
  deleted) fails: the controller lists two subscriptions with the payload's destination
  and fails the delete of the first. The loop returns at that failure; no delete is
  requested for the second.
\<close>

theorem later_duplicate_left_counterexample:
  "fst (getServerSubscriptions bmc_first_delete_fails (node ''a'') []) = Inr [dup ''1'', dup ''2'']
   \<and> sub_Destination (dup ''2'') = Destination hook_payload
   \<and> delete_calls (snd (deleteConflictingSubscriptions bmc_first_delete_fails (node ''a'')
                          hook_payload []))
       = [(''a'', ''/s/1'')]
   \<and> (''a'', ODataID (dup ''2''))
       \<notin> set (delete_calls (snd (deleteConflictingSubscriptions bmc_first_delete_fails
                                     (node ''a'') hook_payload [])))"
  by (simp add: getServerSubscriptions_def deleteConflictingSubscriptions_def
      deleteSubscriptionFromServer_def getRedfishClient_def bmc_first_delete_fails_def
      bmc_ok_def node_def dup_def hook_payload_def Let_def)

text \<open>
  Claim C7. The version check is false. The legacy create sends one request, made of
  the destination, the event types, the headers, the protocol, the context and the Oem
  data of the payload. \<open>createSubscription\<close> sends a create request exactly when it
  holds a live session, then one, of the legacy shape, on that session; it never sends
  the other shape. Registry prefixes, resource types and retry policy of the payload
  change nothing in what \<open>createSubscription\<close> does or returns.
\<close>

theorem create_is_legacy_shape:
  "\<not> isV1_5
   \<and> snd (createLegacySubscription g c p tr) =
       tr @ [CreateEventSubscription c (Destination p) (EventTypes p) (HTTPHeaders p)
               (Protocol p) (Context p) (Oem p)]
   \<and> create_calls (snd (createSubscription g server p tr)) =
       create_calls tr @
       (if session_opened g server tr
        then [CreateEventSubscription (IP server) (Destination p) (EventTypes p) (HTTPHeaders p)
                (Protocol p) (Context p) (Oem p)]
        else [])
   \<and> createSubscription g server
        (p\<lparr>RegistryPrefixes := rp, ResourceTypes := rt, DeliveryRetryPolicy := pol\<rparr>) tr =
       createSubscription g server p tr"
proof -
  have a: "\<not> isV1_5" by (simp add: isV1_5_def)
  have b: "snd (createLegacySubscription g c p tr) =
       tr @ [CreateEventSubscription c (Destination p) (EventTypes p) (HTTPHeaders p)
               (Protocol p) (Context p) (Oem p)]"
    using createLegacySubscription_trace[of g c p tr] by (simp add: legacy_call_def)
  have c: "create_calls (snd (createSubscription g server p tr)) =
       create_calls tr @
       (if session_opened g server tr
        then [CreateEventSubscription (IP server) (Destination p) (EventTypes p) (HTTPHeaders p)
                (Protocol p) (Context p) (Oem p)]
        else [])"
    using createSubscription_create_calls[of g server p tr] by (simp add: legacy_call_def)
  show ?thesis using a b c createSubscription_payload by blast
qed

theorem create_is_legacy_shape_witness:
  "\<not> isV1_5
   \<and> session_opened (bmc_ok ''/s/1'') (node ''a'') []
   \<and> create_calls (snd (createSubscription (bmc_ok ''/s/1'') (node ''a'') hook_payload []))
       = [CreateEventSubscription ''a'' ''http://hook/x'' [''Alert''] Map.empty
            ''Redfish'' ''ctx'' []]"
proof -
  have s: "session_opened (bmc_ok ''/s/1'') (node ''a'') []"
    by (simp add: session_opened_def getRedfishClient_def bmc_ok_def)
  from create_is_legacy_shape[of "bmc_ok ''/s/1''" "IP (node ''a'')" hook_payload "[]"
      "node ''a''" "[]" "[]" "[]"] s
  show ?thesis by (simp add: create_calls_def node_def hook_payload_def)
qed

text \<open>
  Claim C8. The channel is made with the number of servers as capacity. The shared
  action of a worker adds at most one error to it. After the workers of any set of
  distinct indices have acted, in any order, none has blocked, the channel holds one
  error per failed worker among them, and that is at most the capacity; so the call
  itself always returns.
\<close>

theorem errChan_never_full:
  assumes "distinct sched" "set sched \<subseteq> {..<length servers}"
  shows "capacity (errChan (fleet_init servers)) = length servers
       \<and> (\<forall>i st st'. worker_done servers (create_outs envs servers p) i st = Some st'
             \<longrightarrow> length (buffer (errChan st')) \<le> Suc (length (buffer (errChan st))))
       \<and> (\<exists>st. run_workers servers (create_outs envs servers p) sched (fleet_init servers) = Some st
             \<and> capacity (errChan st) = length servers
             \<and> length (buffer (errChan st)) =
                 length (filter (\<lambda>i. isl (create_result envs servers p i)) sched)
             \<and> length (buffer (errChan st)) \<le> capacity (errChan st))
       \<and> CreateSubscriptionsForAllServers sched envs renvs servers p \<noteq> None"
proof -
  let ?outs = "create_outs envs servers p"
  have a: "capacity (errChan (fleet_init servers)) = length servers"
    by (simp add: fleet_init_def make_chan_def)
  have b: "\<forall>i st st'. worker_done servers ?outs i st = Some st'
             \<longrightarrow> length (buffer (errChan st')) \<le> Suc (length (buffer (errChan st)))"
    by (auto simp: worker_done_def send_def split: sum.splits option.splits if_splits)
  have se: "sent_errors ?outs sched =
      map (failure_message envs servers p) (filter (\<lambda>i. isl (create_result envs servers p i)) sched)"
    by (rule sent_errors_create[OF assms(2)])
  have "length (filter (\<lambda>i. isl (create_result envs servers p i)) sched) \<le> length sched"
    by (rule length_filter_le)
  also have "\<dots> \<le> length servers" by (rule sched_length[OF assms])
  finally have le: "length (filter (\<lambda>i. isl (create_result envs servers p i)) sched) \<le> length servers" .
  have c: "\<exists>st. run_workers servers ?outs sched (fleet_init servers) = Some st
             \<and> capacity (errChan st) = length servers
             \<and> length (buffer (errChan st)) =
                 length (filter (\<lambda>i. isl (create_result envs servers p i)) sched)
             \<and> length (buffer (errChan st)) \<le> capacity (errChan st)"
    using run_workers_fleet[OF assms, of ?outs] se le by simp
  have d: "CreateSubscriptionsForAllServers sched envs renvs servers p \<noteq> None"
    using CreateAll_char[OF assms, of envs renvs p] by (simp add: Let_def)
  show ?thesis using a b c d by blast
qed

theorem errChan_never_full_witness:
  "\<exists>st. run_workers [node ''a'', node ''b'']
           (create_outs none_ok [node ''a'', node ''b''] hook_payload) [1, 0]
           (fleet_init [node ''a'', node ''b'']) = Some st
      \<and> capacity (errChan st) = 2 \<and> length (buffer (errChan st)) = 2"
proof -
  let ?servers = "[node ''a'', node ''b'']"
  have h1: "distinct [1, 0::nat]" by simp
  have h2: "set [1, 0::nat] \<subseteq> {..<length ?servers}" by simp
  from errChan_never_full[OF h1 h2, of none_ok hook_payload all_ok] obtain st where
    st: "run_workers ?servers (create_outs none_ok ?servers hook_payload) [1, 0]
           (fleet_init ?servers) = Some st"
        "capacity (errChan st) = length ?servers"
        "length (buffer (errChan st)) =
           length (filter (\<lambda>i. isl (create_result none_ok ?servers hook_payload i)) [1, 0])"
    by (elim exE conjE) blast
  from st(2) have a: "capacity (errChan st) = 2" by simp
  from st(3) have b: "length (buffer (errChan st)) = 2" by (simp add: create_result_none_ok)
  from st(1) a b show ?thesis by blast
qed

text \<open>
  Claim C9. Some address occurs twice in the input and every per-server create
  succeeds: the returned map has one entry per distinct address, fewer than there are
  servers. The entry of an address holds the identifier of the worker that stored last
  among the workers of that address; the identifier of any other worker of the address
  is in the map under that address only if it is that same identifier.
\<close>

theorem duplicate_address_map:
  assumes dup: "\<not> distinct (map IP servers)"
    and sched: "distinct sched" "set sched = {..<length servers}"
    and ok: "\<forall>i<length servers. create_result envs servers p i = Inr (uri i)"
  shows "\<exists>r m. CreateSubscriptionsForAllServers sched envs renvs servers p = Some r
           \<and> ret_err r = None \<and> ret_map r = Some m
           \<and> distinct (map fst m)
           \<and> length m = card (IP ` set servers)
           \<and> length m < length servers
           \<and> (\<forall>i<length servers.
                 map_of m (IP (servers ! i)) =
                   Some (uri (last (filter (\<lambda>j. IP (servers ! j) = IP (servers ! i)) sched))))
           \<and> (\<forall>i<length servers.
                 (IP (servers ! i), uri i) \<in> set m \<longrightarrow>
                 uri i = uri (last (filter (\<lambda>j. IP (servers ! j) = IP (servers ! i)) sched)))"
proof -
  let ?m = "stored_map servers (create_outs envs servers p) sched []"
  note res = all_created_result(1)[OF sched ok, of renvs] all_created_result(2)[OF sched ok]
  have dm: "distinct (map fst ?m)" by (simp add: stored_map_distinct)
  have len: "length ?m = card (IP ` set servers)"
    using alist_length_card[OF dm] res(2) by simp
  have "card (set (map IP servers)) \<le> length (map IP servers)" by (rule card_length)
  moreover have "card (set (map IP servers)) \<noteq> length (map IP servers)"
    using dup card_distinct by blast
  ultimately have lt: "length ?m < length servers" using len by simp
  have look: "\<forall>i<length servers. map_of ?m (IP (servers ! i)) =
      Some (uri (last (filter (\<lambda>j. IP (servers ! j) = IP (servers ! i)) sched)))"
    using stored_map_create_lookup[OF sched(2) ok] by blast
  have mem: "\<forall>i<length servers. (IP (servers ! i), uri i) \<in> set ?m \<longrightarrow>
      uri i = uri (last (filter (\<lambda>j. IP (servers ! j) = IP (servers ! i)) sched))"
  proof (intro allI impI)
    fix i assume i: "i < length servers" and "(IP (servers ! i), uri i) \<in> set ?m"
    then have "map_of ?m (IP (servers ! i)) = Some (uri i)" using dm by simp
    with look i show "uri i = uri (last (filter (\<lambda>j. IP (servers ! j) = IP (servers ! i)) sched))"
      by simp
  qed
  show ?thesis using res(1) dm len lt look mem by simp
qed

theorem duplicate_address_map_witness:
  "\<exists>r m. CreateSubscriptionsForAllServers [1, 0] two_ok all_ok [node ''a'', node ''a'']
            hook_payload = Some r
      \<and> ret_err r = None \<and> ret_map r = Some m \<and> length m = 1
      \<and> map_of m ''a'' = Some ''/s/1'' \<and> (''a'', ''/s/2'') \<notin> set m"
proof -
  let ?servers = "[node ''a'', node ''a'']"
  have h0: "\<not> distinct (map IP ?servers)" by simp
  have h1: "distinct [1, 0::nat]" by simp
  have h2: "set [1, 0::nat] = {..<length ?servers}" by (rule sched_two)
  have h3: "\<forall>i<length ?servers. create_result two_ok ?servers hook_payload i = Inr (two_uri i)"
    by (simp add: create_result_def two_ok_def createSubscription_bmc_ok)
  from duplicate_address_map[OF h0 h1 h2 h3, of all_ok] obtain r m where
    r: "CreateSubscriptionsForAllServers [1, 0] two_ok all_ok ?servers hook_payload = Some r"
       "ret_err r = None" "ret_map r = Some m" "length m = card (IP ` set ?servers)"
       "\<forall>i<length ?servers. map_of m (IP (?servers ! i)) =
           Some (two_uri (last (filter (\<lambda>j. IP (?servers ! j) = IP (?servers ! i)) [1, 0])))"
       "\<forall>i<length ?servers. (IP (?servers ! i), two_uri i) \<in> set m \<longrightarrow>
           two_uri i = two_uri (last (filter (\<lambda>j. IP (?servers ! j) = IP (?servers ! i)) [1, 0]))"
    by (elim exE conjE) blast
  from r(4) have a: "length m = 1" by simp
  from r(5)[rule_format, of 1] have b: "map_of m ''a'' = Some ''/s/1''"
    by (simp add: node_def two_uri_def)
  from r(6)[rule_format, of 1] have c: "(''a'', ''/s/2'') \<notin> set m"
    by (auto simp: node_def two_uri_def)
  show ?thesis using r(1-3) a b c by blast
qed

text \<open>
  Claim C10. For an address that matches no descriptor \<open>getServerInfo\<close> returns the
  zero-value descriptor. The rollback goroutine of an entry with such an address goes on
  with the delete on that descriptor (empty address, user name and password). When the
  connection fails, the goroutine has made that one call and logged the two failures,
  and the error goes no further.
\<close>

theorem lookup_miss_zero_value:
  assumes miss: "a \<notin> IP ` set servers" and entry: "(a, u) \<in> set m"
  shows "getServerInfo servers a = RedfishServer_zero
       \<and> (\<exists>d\<in>set (snd (DeleteSubscriptionsFromAllServers renvs servers m)).
             run_serverIP d = a \<and> run_subscriptionURI d = u
           \<and> run_server d = RedfishServer_zero
           \<and> IP (run_server d) = [] \<and> Username (run_server d) = [] \<and> Password (run_server d) = []
           \<and> d = delete_worker (renvs a) servers a u
           \<and> run_err d = fst (deleteSubscriptionFromServer (renvs a) RedfishServer_zero u [])
           \<and> (\<forall>err. connect_res (renvs a) [Connect [] [] [] True] = Some err \<longrightarrow>
                 run_err d = Some (''failed to connect to server : '' @ err)
               \<and> run_trace d =
                   [Connect [] [] [] True,
                    Log (''Error connecting to redfish server : '' @ err),
                    Log (''Failed to delete event subscription on server : failed to connect to server : ''
                         @ err)]))"
proof -
  let ?d = "delete_worker (renvs a) servers a u"
  have z: "getServerInfo servers a = RedfishServer_zero" by (rule getServerInfo_miss[OF miss])
  have mem: "?d \<in> set (snd (DeleteSubscriptionsFromAllServers renvs servers m))"
    by (rule rollback_has_run[OF entry])
  have sel: "run_serverIP ?d = a" "run_subscriptionURI ?d = u" "run_server ?d = RedfishServer_zero"
    "run_err ?d = fst (deleteSubscriptionFromServer (renvs a) RedfishServer_zero u [])"
    by (simp_all add: delete_worker_sel z)
  have fields: "IP (run_server ?d) = []" "Username (run_server ?d) = []"
    "Password (run_server ?d) = []"
    by (simp_all add: sel RedfishServer_zero_def)
  have failed: "\<forall>err. connect_res (renvs a) [Connect [] [] [] True] = Some err \<longrightarrow>
                 run_err ?d = Some (''failed to connect to server : '' @ err)
               \<and> run_trace ?d =
                   [Connect [] [] [] True,
                    Log (''Error connecting to redfish server : '' @ err),
                    Log (''Failed to delete event subscription on server : failed to connect to server : ''
                         @ err)]"
  proof (intro allI impI)
    fix err assume "connect_res (renvs a) [Connect [] [] [] True] = Some err"
    from delete_worker_zero_failed[OF z this, of u]
    show "run_err ?d = Some (''failed to connect to server : '' @ err)
               \<and> run_trace ?d =
                   [Connect [] [] [] True,
                    Log (''Error connecting to redfish server : '' @ err),
                    Log (''Failed to delete event subscription on server : failed to connect to server : ''
                         @ err)]"
      by simp
  qed
  show ?thesis
    apply (rule conjI[OF z])
    apply (rule bexI[OF _ mem])
    apply (intro conjI)
    apply (rule sel(1))
    apply (rule sel(2))
    apply (rule sel(3))
    apply (rule fields(1))
    apply (rule fields(2))
    apply (rule fields(3))
    apply (rule refl)
    apply (rule sel(4))
    apply (rule failed)
    done
qed

theorem lookup_miss_zero_value_witness:
  "''zz'' \<notin> IP ` set [node ''a''] \<and> (''zz'', ''/s/7'') \<in> set [(''zz'', ''/s/7'')]
   \<and> getServerInfo [node ''a''] ''zz'' = RedfishServer_zero
   \<and> (\<exists>d\<in>set (snd (DeleteSubscriptionsFromAllServers all_unreachable [node ''a'']
                       [(''zz'', ''/s/7'')])).
         run_server d = RedfishServer_zero
         \<and> run_err d = Some ''failed to connect to server : refused''
         \<and> run_trace d =
             [Connect [] [] [] True,
              Log ''Error connecting to redfish server : refused'',
              Log ''Failed to delete event subscription on server : failed to connect to server : refused''])"
proof -
  have h1: "''zz'' \<notin> IP ` set [node ''a'']" by (simp add: node_def)
  have h2: "(''zz'', ''/s/7'') \<in> set [(''zz'', ''/s/7'')]" by simp
  have f: "connect_res (all_unreachable ''zz'') [Connect [] [] [] True] = Some ''refused''"
    by (simp add: all_unreachable_def bmc_unreachable_def bmc_ok_def)
  from lookup_miss_zero_value[OF h1 h2, of all_unreachable] f h1 h2
  show ?thesis by auto
qed

end
